theory Spec2Isabelle
  imports Complex_Main
begin

section \<open>Values, errors and Python built-ins\<close>

text \<open>
  The scripts compute with Python floats and numpy arrays of floats.  A finite float is
  modelled as a \<^typ>\<open>real\<close>, a one-dimensional array as a \<^typ>\<open>real list\<close> and a table as
  a list of rows; the estimators are computed in exact arithmetic on them.  Where an
  operation of the source can leave the finite floats (a division by zero, the logarithm
  of a number that is not positive, the mean of no sample) its result is a value of the
  type \<open>fval\<close> below, which has \<open>inf\<close>, \<open>-inf\<close> and \<open>nan\<close> beside the finite numbers, and
  the arithmetic of the smoothing rule is the IEEE 754 binary64 arithmetic on that type,
  with rounding.

  Every exception the source can raise is a value: a function that can raise returns
  \<open>error + 'a\<close>, with \<open>Inl\<close> for the exception.
\<close>

datatype error =
    KeyError
  | IndexError
  | ValueError
  | TypeError
  | LinAlgError
  | NoInputFiles
    \<comment> \<open>not an exception: \<open>process\<close> without files prints a usage line and returns\<close>

subsection \<open>Floats\<close>

datatype fval = Fin real | PosInf | NegInf | NaN

text \<open>
  Rounding to binary64, to nearest with ties to even.  \<open>pow2 e\<close> is 2 to the power \<open>e\<close>;
  \<open>rne y\<close> is the integer nearest to \<open>y\<close>, the even one of two that are equally near;
  \<open>binade x\<close> is the exponent \<open>e\<close> with \<open>pow2 e \<le> |x| < pow2 (e + 1)\<close>.  The floats of
  exponent \<open>e\<close> are the multiples of \<open>pow2 (e - 52)\<close>, and those below \<open>pow2 (-1022)\<close> (the
  subnormal ones) the multiples of \<open>pow2 (-1074)\<close>; a result that rounds to \<open>pow2 1024\<close>
  or beyond overflows to an infinity.  The model has one zero.
\<close>

definition pow2 :: "int \<Rightarrow> real" where
  "pow2 e = (if 0 \<le> e then 2 ^ nat e else 1 / 2 ^ nat (- e))"

definition rne :: "real \<Rightarrow> int" where
  "rne y =
     (let f = \<lfloor>y\<rfloor>; d = y - of_int f
      in if d < 1 / 2 then f
         else if 1 / 2 < d then f + 1
         else if even f then f else f + 1)"

definition binade :: "real \<Rightarrow> int" where
  "binade x = \<lfloor>log 2 \<bar>x\<bar>\<rfloor>"

definition round_double :: "real \<Rightarrow> fval" where
  "round_double x =
     (if x = 0 then Fin 0
      else
        (let q = pow2 (max (binade x) (- 1022) - 52);
             r = of_int (rne (x / q)) * q
         in if pow2 1024 \<le> \<bar>r\<bar> then (if 0 < x then PosInf else NegInf)
            else Fin r))"

text \<open>A float: a value that rounding leaves as it is.\<close>

definition is_float :: "fval \<Rightarrow> bool" where
  "is_float v = (case v of Fin r \<Rightarrow> round_double r = Fin r | _ \<Rightarrow> True)"

text \<open>
  The float operations \<open>-a\<close>, \<open>a * b\<close>, \<open>a + b\<close> and \<open>a - b\<close>: the exact result rounded; \<open>nan\<close>
  from a \<open>nan\<close> operand, from \<open>0 * inf\<close> and from \<open>inf - inf\<close>.
\<close>

fun fneg :: "fval \<Rightarrow> fval" where
  "fneg (Fin a) = Fin (- a)"
| "fneg PosInf = NegInf"
| "fneg NegInf = PosInf"
| "fneg NaN = NaN"

fun inf_sign :: "bool \<Rightarrow> fval" where
  "inf_sign True = PosInf"
| "inf_sign False = NegInf"

fun fmul :: "fval \<Rightarrow> fval \<Rightarrow> fval" where
  "fmul (Fin a) (Fin b) = round_double (a * b)"
| "fmul NaN b = NaN"
| "fmul a NaN = NaN"
| "fmul (Fin a) PosInf = (if a = 0 then NaN else inf_sign (0 < a))"
| "fmul (Fin a) NegInf = (if a = 0 then NaN else inf_sign (a < 0))"
| "fmul PosInf (Fin b) = (if b = 0 then NaN else inf_sign (0 < b))"
| "fmul NegInf (Fin b) = (if b = 0 then NaN else inf_sign (b < 0))"
| "fmul PosInf PosInf = PosInf"
| "fmul PosInf NegInf = NegInf"
| "fmul NegInf PosInf = NegInf"
| "fmul NegInf NegInf = PosInf"

fun fadd :: "fval \<Rightarrow> fval \<Rightarrow> fval" where
  "fadd (Fin a) (Fin b) = round_double (a + b)"
| "fadd NaN b = NaN"
| "fadd a NaN = NaN"
| "fadd PosInf NegInf = NaN"
| "fadd NegInf PosInf = NaN"
| "fadd PosInf b = PosInf"
| "fadd NegInf b = NegInf"
| "fadd a PosInf = PosInf"
| "fadd a NegInf = NegInf"

definition fsub :: "fval \<Rightarrow> fval \<Rightarrow> fval" where
  "fsub a b = fadd a (fneg b)"

text \<open>
  numpy's \<open>a / b\<close> on finite floats: a zero divisor gives, with a warning and no
  exception, \<open>inf\<close> with the sign of \<open>a\<close>, and \<open>nan\<close> for \<open>0 / 0\<close>.  numpy's \<open>log(x)\<close>: \<open>-inf\<close>
  at zero and \<open>nan\<close> below, again with a warning only.
\<close>

definition np_divide :: "real \<Rightarrow> real \<Rightarrow> fval" where
  "np_divide a b =
     (if b \<noteq> 0 then Fin (a / b)
      else if 0 < a then PosInf else if a < 0 then NegInf else NaN)"

fun np_log :: "fval \<Rightarrow> fval" where
  "np_log (Fin v) = (if 0 < v then Fin (ln v) else if v = 0 then NegInf else NaN)"
| "np_log PosInf = PosInf"
| "np_log NegInf = NaN"
| "np_log NaN = NaN"

text \<open>\<open>a + c\<close> for a finite constant \<open>c\<close>, not rounded.\<close>

fun fshift :: "real \<Rightarrow> fval \<Rightarrow> fval" where
  "fshift c (Fin v) = Fin (v + c)"
| "fshift c PosInf = PosInf"
| "fshift c NegInf = NegInf"
| "fshift c NaN = NaN"

text \<open>The finite values of an array, when all its values are finite.\<close>

fun fins :: "fval list \<Rightarrow> real list option" where
  "fins [] = Some []"
| "fins (Fin v # vs) = (case fins vs of None \<Rightarrow> None | Some rs \<Rightarrow> Some (v # rs))"
| "fins (v # vs) = None"

text \<open>\<open>np.mean\<close> of a one-dimensional array: \<open>nan\<close> (with a warning) when it is empty.\<close>

definition np_mean :: "real list \<Rightarrow> fval" where
  "np_mean xs = (if xs = [] then NaN else Fin (sum_list xs / real (length xs)))"

text \<open>Python's built-in \<open>max(a, b)\<close> and \<open>min(a, b)\<close> return the first argument on a tie.\<close>

definition py_max :: "real \<Rightarrow> real \<Rightarrow> real" where
  "py_max a b = (if b > a then b else a)"

definition py_min :: "real \<Rightarrow> real \<Rightarrow> real" where
  "py_min a b = (if b < a then b else a)"

text \<open>\<open>np.clip(x, lo, hi)\<close> is \<open>minimum(maximum(x, lo), hi)\<close>.\<close>

definition np_clip :: "real \<Rightarrow> real \<Rightarrow> real \<Rightarrow> real" where
  "np_clip x lo hi = min (max x lo) hi"

text \<open>\<open>a[-1]\<close> on a one-dimensional array: \<open>IndexError\<close> when it is empty.\<close>

definition last_elem :: "'a list \<Rightarrow> error + 'a" where
  "last_elem xs = (if xs = [] then Inl IndexError else Inr (last xs))"


subsection \<open>Strings\<close>

text \<open>
  A line of a file is a \<^typ>\<open>string\<close>, one \<^typ>\<open>char\<close> for each code point (so the model
  covers the code points below 256).  \<open>str.isspace\<close> and \<open>str.isdigit\<close> are Python's, on
  that range: the ASCII white space, the separators \<open>0x1c\<close> to \<open>0x1f\<close>, \<open>0x85\<close> and
  \<open>0xa0\<close>; the ASCII digits and the superscript digits \<open>0xb2\<close>, \<open>0xb3\<close>, \<open>0xb9\<close>.
\<close>

definition py_isspace :: "char \<Rightarrow> bool" where
  "py_isspace c =
     (let n = (of_char c :: nat)
      in (9 \<le> n \<and> n \<le> 13) \<or> (28 \<le> n \<and> n \<le> 32) \<or> n = 133 \<or> n = 160)"

definition py_isdigit :: "char \<Rightarrow> bool" where
  "py_isdigit c =
     (let n = (of_char c :: nat)
      in (48 \<le> n \<and> n \<le> 57) \<or> n = 178 \<or> n = 179 \<or> n = 185)"

text \<open>\<open>s.strip()\<close>\<close>

definition strip :: "string \<Rightarrow> string" where
  "strip s = rev (dropWhile py_isspace (rev (dropWhile py_isspace s)))"

text \<open>\<open>s.split()\<close>: the maximal runs of characters that are not white space.\<close>

fun split_from :: "string \<Rightarrow> string \<Rightarrow> string list" where
  "split_from tok [] = (if tok = [] then [] else [tok])"
| "split_from tok (c # cs) =
     (if py_isspace c
      then (if tok = [] then split_from [] cs else tok # split_from [] cs)
      else split_from (tok @ [c]) cs)"

definition split_ws :: "string \<Rightarrow> string list" where
  "split_ws s = split_from [] s"

text \<open>\<open>s.startswith(p)\<close> and \<open>p in s\<close>\<close>

definition startswith :: "string \<Rightarrow> string \<Rightarrow> bool" where
  "startswith s p = (take (length p) s = p)"

fun contains :: "string \<Rightarrow> string \<Rightarrow> bool" where
  "contains [] p = (p = [])"
| "contains (c # cs) p = (startswith (c # cs) p \<or> contains cs p)"

text \<open>\<open>s.split(c)\<close> with a separator character: the pieces between its occurrences.\<close>

fun split_on :: "char \<Rightarrow> string \<Rightarrow> string list" where
  "split_on c [] = [[]]"
| "split_on c (x # xs) =
     (if x = c then [] # split_on c xs
      else (case split_on c xs of [] \<Rightarrow> [[x]] | piece # rest \<Rightarrow> (x # piece) # rest))"

text \<open>
  \<open>[float(x) for x in tokens]\<close>.  Python's \<open>float\<close> is a parameter \<open>pf\<close> of the parsers:
  \<open>pf t = None\<close> when \<open>float(t)\<close> raises \<open>ValueError\<close>.  The comprehension raises at the
  first token that does not parse.
\<close>

fun floats :: "(string \<Rightarrow> real option) \<Rightarrow> string list \<Rightarrow> error + real list" where
  "floats pf [] = Inr []"
| "floats pf (t # ts) =
     (case pf t of
        None \<Rightarrow> Inl ValueError
      | Some v \<Rightarrow> (case floats pf ts of Inl e \<Rightarrow> Inl e | Inr vs \<Rightarrow> Inr (v # vs)))"



subsection \<open>Arrays\<close>

text \<open>
  \<open>np.array(rows)\<close> of a list of rows of floats: a table when all rows have one length
  (the empty list gives an empty array); rows of different lengths are refused with
  \<open>ValueError\<close>.
\<close>

definition np_array :: "real list list \<Rightarrow> error + real list list" where
  "np_array rows =
     (if \<forall>r \<in> set rows. length r = length (hd rows) then Inr rows else Inl ValueError)"

definition width :: "real list list \<Rightarrow> nat" where
  "width rows = (if rows = [] then 0 else length (hd rows))"

text \<open>\<open>a[:, i]\<close> for \<open>i \<ge> 0\<close> on a table with at least one row: \<open>IndexError\<close> beyond the width.\<close>

definition column :: "real list list \<Rightarrow> nat \<Rightarrow> error + real list" where
  "column rows i = (if i < width rows then Inr (map (\<lambda>r. r ! i) rows) else Inl IndexError)"

text \<open>\<open>a[mask]\<close> with a boolean mask: \<open>IndexError\<close> when the lengths differ.\<close>

definition bool_index :: "'a list \<Rightarrow> bool list \<Rightarrow> error + 'a list" where
  "bool_index xs msk =
     (if length msk = length xs then Inr (map fst (filter snd (zip xs msk)))
      else Inl IndexError)"

definition mean :: "real list \<Rightarrow> real" where
  "mean xs = sum_list xs / real (length xs)"

text \<open>
  \<open>np.gradient(a)\<close> of a one-dimensional array with unit spacing: central differences
  inside, one-sided differences at the two ends; \<open>ValueError\<close> below two elements.
\<close>

definition np_gradient :: "real list \<Rightarrow> error + real list" where
  "np_gradient a =
     (let n = length a in
      if n < 2 then Inl ValueError
      else Inr (map (\<lambda>i. if i = 0 then a ! 1 - a ! 0
                           else if i = n - 1 then a ! (n - 1) - a ! (n - 2)
                           else (a ! (i + 1) - a ! (i - 1)) / 2) [0..<n]))"

text \<open>The same differences on a sequence given by its index function, for \<open>n\<close> samples.\<close>

definition grad :: "(nat \<Rightarrow> real) \<Rightarrow> nat \<Rightarrow> nat \<Rightarrow> real" where
  "grad u n i =
     (if i = 0 then u 1 - u 0
      else if i = n - 1 then u (n - 1) - u (n - 2)
      else (u (i + 1) - u (i - 1)) / 2)"

text \<open>
  \<open>np.argmax(a)\<close> and \<open>np.argmin(a)\<close>: the first index of the greatest (least) element;
  \<open>ValueError\<close> on an empty array.
\<close>

fun argmax_from :: "real list \<Rightarrow> nat \<Rightarrow> real \<Rightarrow> nat \<Rightarrow> nat" where
  "argmax_from [] i best besti = besti"
| "argmax_from (x # xs) i best besti =
     (if x > best then argmax_from xs (Suc i) x i else argmax_from xs (Suc i) best besti)"

definition np_argmax :: "real list \<Rightarrow> error + nat" where
  "np_argmax a = (case a of [] \<Rightarrow> Inl ValueError | x # xs \<Rightarrow> Inr (argmax_from xs 1 x 0))"

fun argmin_from :: "real list \<Rightarrow> nat \<Rightarrow> real \<Rightarrow> nat \<Rightarrow> nat" where
  "argmin_from [] i best besti = besti"
| "argmin_from (x # xs) i best besti =
     (if x < best then argmin_from xs (Suc i) x i else argmin_from xs (Suc i) best besti)"

definition np_argmin :: "real list \<Rightarrow> error + nat" where
  "np_argmin a = (case a of [] \<Rightarrow> Inl ValueError | x # xs \<Rightarrow> Inr (argmin_from xs 1 x 0))"

text \<open>\<open>a[i]\<close> for an index \<open>i \<ge> 0\<close>\<close>

definition item :: "real list \<Rightarrow> nat \<Rightarrow> error + real" where
  "item a i = (if i < length a then Inr (a ! i) else Inl IndexError)"

text \<open>
  \<open>np.polyfit(x, y, 1, w=w)[0]\<close>, the slope of the least-squares line through the points,
  with the residual of point \<open>i\<close> multiplied by \<open>w[i]\<close>.  \<open>polyfit\<close> raises \<open>TypeError\<close> for an
  empty \<open>x\<close> and for arrays of different lengths.  When the normal equations are singular
  (all abscissae with a non-zero weight are equal, as with a single sample) \<open>polyfit\<close>
  warns of the poor conditioning and returns the solution of least norm of the system
  with its columns scaled to unit length: the slope is then half the weighted mean of
  \<open>y\<close> over the common abscissa.

  On data that are not finite, and on a system with a zero column (all weights zero, or
  all abscissae zero: the scaling divides zero by zero), the least-squares routine of
  numpy's LAPACK is handed \<open>nan\<close> or \<open>inf\<close>; what it then does (\<open>LinAlgError\<close>, or a
  result of \<open>nan\<close>) depends on the build.  That behaviour is the parameter \<open>nf\<close>.
\<close>

definition dot :: "real list \<Rightarrow> real list \<Rightarrow> real" where
  "dot a b = sum_list (map2 (*) a b)"

type_synonym lstsq = "real list \<Rightarrow> fval list \<Rightarrow> fval list option \<Rightarrow> error + fval"

definition np_polyfit1 :: "lstsq \<Rightarrow> real list \<Rightarrow> fval list \<Rightarrow> fval list option \<Rightarrow> error + fval" where
  "np_polyfit1 nf x y w =
     (if x = [] then Inl TypeError
      else if length x \<noteq> length y then Inl TypeError
      else if (case w of None \<Rightarrow> False | Some ws \<Rightarrow> length ws \<noteq> length y) then Inl TypeError
      else
        (case (fins y, (case w of None \<Rightarrow> Some (replicate (length x) 1) | Some ws \<Rightarrow> fins ws)) of
           (Some yr, Some wr) \<Rightarrow>
             (let W = map (\<lambda>v. v * v) wr;
                  S = sum_list W;
                  Sx = dot W x;
                  Sy = dot W yr;
                  Sxx = dot W (map (\<lambda>v. v * v) x);
                  Sxy = dot W (map2 (*) x yr);
                  det = S * Sxx - Sx * Sx
              in if det \<noteq> 0 then Inr (Fin ((S * Sxy - Sx * Sy) / det))
                 else if S = 0 \<or> Sxx = 0 then nf x y w
                 else Inr (Fin (Sy / S / (2 * (Sx / S)))))
         | _ \<Rightarrow> nf x y w))"


section \<open>The multiplicative variant (\<open>calculate_gutenprint_cal.py\<close>)\<close>

subsection \<open>Constants\<close>

type_synonym params = "string \<rightharpoonup> real"

definition DEFAULT_PARAMS :: params where
  "DEFAULT_PARAMS = map_of
     [(''CyanGamma'', 1), (''CyanDensity'', 1),
      (''LightCyanValue'', 35 / 100), (''LightCyanScale'', 1), (''LightCyanTrans'', 6 / 10),
      (''MagentaGamma'', 1), (''MagentaDensity'', 1),
      (''LightMagentaValue'', 35 / 100), (''LightMagentaScale'', 1),
      (''LightMagentaTrans'', 6 / 10),
      (''YellowGamma'', 1), (''YellowDensity'', 1),
      (''BlackGamma'', 1), (''BlackDensity'', 1),
      (''CompositeGamma'', 1)]"

definition CHAN_IDX :: "(string \<times> nat) list" where
  "CHAN_IDX = [(''Cyan'', 1), (''Magenta'', 2), (''Yellow'', 3), (''Black'', 4)]"

subsection \<open>\<open>parse_cal_file\<close>\<close>

definition curves_descriptor :: string where
  "curves_descriptor =
     ''DESCRIPTOR '' @ [CHR 0x22] @ ''Argyll Device Calibration Curves'' @ [CHR 0x22]"

definition de_descriptor :: string where
  "de_descriptor =
     ''DESCRIPTOR '' @ [CHR 0x22] @ ''Argyll Output Calibration Expected DE Response''
       @ [CHR 0x22]"

datatype block = CURVES | DE

record pstate =
  current_block :: "block option"
  data_curves :: "real list list"
  data_de :: "real list list"

text \<open>
  One turn of the second loop of \<open>parse_cal_file\<close> (the "Robust Block Parser"; the first
  loop only sets two local flags that nothing reads).  A line is tried as a data row when
  a block is current and the line starts with a digit; \<open>float\<close> is not guarded there, so a
  token that does not parse raises.
\<close>

definition parse_line :: "(string \<Rightarrow> real option) \<Rightarrow> pstate \<Rightarrow> string \<Rightarrow> error + pstate" where
  "parse_line pf st raw =
     (let line = strip raw in
      if contains line curves_descriptor then Inr (st\<lparr>current_block := Some CURVES\<rparr>)
      else if contains line de_descriptor then Inr (st\<lparr>current_block := Some DE\<rparr>)
      else if startswith line ''BEGIN_DATA'' then Inr st
      else if startswith line ''END_DATA_FORMAT'' then Inr st
      else if startswith line ''END_DATA'' then Inr (st\<lparr>current_block := None\<rparr>)
      else if startswith line ''CAL'' \<or> startswith line ''Originator''
              \<or> startswith line ''Created'' then Inr st
      else if current_block st \<noteq> None \<and> line \<noteq> [] \<and> py_isdigit (hd line) then
        (case floats pf (split_ws line) of
           Inl e \<Rightarrow> Inl e
         | Inr parts \<Rightarrow>
             (case current_block st of
                Some CURVES \<Rightarrow> Inr (st\<lparr>data_curves := data_curves st @ [parts]\<rparr>)
              | Some DE \<Rightarrow> Inr (st\<lparr>data_de := data_de st @ [parts]\<rparr>)
              | None \<Rightarrow> Inr st))
      else Inr st)"

fun parse_lines :: "(string \<Rightarrow> real option) \<Rightarrow> pstate \<Rightarrow> string list \<Rightarrow> error + pstate" where
  "parse_lines pf st [] = Inr st"
| "parse_lines pf st (l # ls) =
     (case parse_line pf st l of Inl e \<Rightarrow> Inl e | Inr st' \<Rightarrow> parse_lines pf st' ls)"



type_synonym channels = "string \<rightharpoonup> (real list \<times> real list)"

text \<open>\<open>for name, i in CHAN_IDX.items(): d[name] = (inp, a[:, i])\<close>\<close>

fun fill_channels ::
  "real list list \<Rightarrow> real list \<Rightarrow> (string \<times> nat) list \<Rightarrow> channels \<Rightarrow> error + channels" where
  "fill_channels a inp [] d = Inr d"
| "fill_channels a inp ((name, i) # rest) d =
     (case column a i of
        Inl e \<Rightarrow> Inl e
      | Inr c \<Rightarrow> fill_channels a inp rest (d(name \<mapsto> (inp, c))))"

text \<open>\<open>if a.size > 0: inp = a[:, 0]; for ...\<close>\<close>

definition structure_data :: "real list list \<Rightarrow> error + channels" where
  "structure_data a =
     (if length a * width a > 0 then
        (case column a 0 of
           Inl e \<Rightarrow> Inl e
         | Inr inp \<Rightarrow> fill_channels a inp CHAN_IDX Map.empty)
      else Inr Map.empty)"

text \<open>The file is given as its lines, as \<open>readlines()\<close> returns them.\<close>

definition parse_cal_file ::
  "(string \<Rightarrow> real option) \<Rightarrow> string list \<Rightarrow> error + (channels \<times> channels)" where
  "parse_cal_file pf lines =
     (case parse_lines pf \<lparr>current_block = None, data_curves = [], data_de = []\<rparr> lines of
        Inl e \<Rightarrow> Inl e
      | Inr st \<Rightarrow>
          (case np_array (data_curves st) of
             Inl e \<Rightarrow> Inl e
           | Inr dc \<Rightarrow>
               (case np_array (data_de st) of
                  Inl e \<Rightarrow> Inl e
                | Inr dde \<Rightarrow>
                    (case structure_data dc of
                       Inl e \<Rightarrow> Inl e
                     | Inr curves \<Rightarrow>
                         (case structure_data dde of
                            Inl e \<Rightarrow> Inl e
                          | Inr de_resp \<Rightarrow> Inr (curves, de_resp))))))"


subsection \<open>Analysis models\<close>

text \<open>
  \<open>fit_gamma\<close> calls \<open>scipy.optimize.curve_fit\<close> inside \<open>try\<close> ... \<open>except\<close>.  The optimiser
  is a parameter \<open>cf\<close>: \<open>cf x y\<close> is \<open>Some popt[0]\<close>, or \<open>None\<close> when \<open>curve_fit\<close> raises.
\<close>

definition fit_gamma ::
  "(real list \<Rightarrow> real list \<Rightarrow> real option) \<Rightarrow> real list \<Rightarrow> real list \<Rightarrow> real" where
  "fit_gamma cf x y =
     (let x_clean = map (\<lambda>v. v + 1 / 1000000) x;
          y_clean = map (\<lambda>v. v + 1 / 1000000) y
      in case cf x_clean y_clean of Some g \<Rightarrow> g | None \<Rightarrow> 1)"

text \<open>
  \<open>analyze_light_ink\<close>.  With no sample at or below 0.6, \<open>np.mean\<close> of the empty array is
  \<open>nan\<close>; then \<open>min(0.9, nan)\<close> is 0.9 (the comparison \<open>nan < 0.9\<close> is false) and the
  function returns 0.9.
\<close>

definition analyze_light_ink ::
  "real list \<Rightarrow> real list \<Rightarrow> real list \<Rightarrow> real \<Rightarrow> real \<Rightarrow> error + real" where
  "analyze_light_ink inp curve de_curve current_val current_trans =
     (let msk = map (\<lambda>v. v \<le> 6 / 10) inp in
      case bool_index inp msk of
        Inl e \<Rightarrow> Inl e
      | Inr x_part \<Rightarrow>
          (case bool_index curve msk of
             Inl e \<Rightarrow> Inl e
           | Inr y_part \<Rightarrow>
               if x_part = [] then Inr (9 / 10)
               else
                 (let diff = map2 (-) y_part x_part;
                      avg_diff = mean diff;
                      val_correction = avg_diff * (- (8 / 10));
                      new_val = current_val + val_correction
                  in Inr (py_max (1 / 10) (py_min (9 / 10) new_val)))))"

text \<open>
  \<open>analyze_density\<close>.  The division is numpy's: a zero denominator gives \<open>-inf\<close> for a
  negative numerator (below the threshold) and \<open>inf\<close> or \<open>nan\<close> otherwise (not below it).
\<close>

definition analyze_density :: "real list \<Rightarrow> real list \<Rightarrow> error + real" where
  "analyze_density inp de_curve =
     (let msk = map (\<lambda>v. v > 9 / 10) inp in
      case bool_index de_curve msk of
        Inl e \<Rightarrow> Inl e
      | Inr de_top \<Rightarrow>
          if length de_top < 2 then Inr 1
          else
            (case bool_index inp msk of
               Inl e \<Rightarrow> Inl e
             | Inr inp_top \<Rightarrow>
                 (let num = last de_curve - hd de_top;
                      den = last inp - hd inp_top
                  in if den = 0 then Inr (if num < 0 then 95 / 100 else 1)
                     else if num / den < 10 then Inr (95 / 100)
                     else Inr 1)))"

subsection \<open>\<open>process\<close>\<close>

text \<open>\<open>params[k] *= g\<close> and \<open>params[k]\<close>\<close>

definition mul_param :: "params \<Rightarrow> string \<Rightarrow> real \<Rightarrow> error + params" where
  "mul_param ps k g = (case ps k of None \<Rightarrow> Inl KeyError | Some v \<Rightarrow> Inr (ps(k \<mapsto> v * g)))"

definition get_param :: "params \<Rightarrow> string \<Rightarrow> error + real" where
  "get_param ps k = (case ps k of None \<Rightarrow> Inl KeyError | Some v \<Rightarrow> Inr v)"

text \<open>Step 1: the per-channel gammas, for the colours present in \<open>curves\<close>.\<close>

fun update_gammas ::
  "(real list \<Rightarrow> real list \<Rightarrow> real option) \<Rightarrow> channels \<Rightarrow> string list \<Rightarrow> params
     \<Rightarrow> error + params" where
  "update_gammas cf curves [] ps = Inr ps"
| "update_gammas cf curves (color # rest) ps =
     (case curves color of
        None \<Rightarrow> update_gammas cf curves rest ps
      | Some (inp, out) \<Rightarrow>
          (case mul_param ps (color @ ''Gamma'') (fit_gamma cf inp out) of
             Inl e \<Rightarrow> Inl e
           | Inr ps' \<Rightarrow> update_gammas cf curves rest ps'))"

text \<open>Step 2: the composite gamma; \<open>curves['Cyan']\<close> and its siblings are not guarded.\<close>

definition update_composite ::
  "(real list \<Rightarrow> real list \<Rightarrow> real option) \<Rightarrow> channels \<Rightarrow> params \<Rightarrow> error + params" where
  "update_composite cf curves ps =
     (case curves ''Cyan'' of
        None \<Rightarrow> Inl KeyError
      | Some (ci, co) \<Rightarrow>
          (case curves ''Magenta'' of
             None \<Rightarrow> Inl KeyError
           | Some (mi, mo) \<Rightarrow>
               (case curves ''Yellow'' of
                  None \<Rightarrow> Inl KeyError
                | Some (yi, yo) \<Rightarrow>
                    (let g_c = fit_gamma cf ci co;
                         g_m = fit_gamma cf mi mo;
                         g_y = fit_gamma cf yi yo;
                         avg_g = (g_c + g_m + g_y) / 3
                     in mul_param ps ''CompositeGamma'' avg_g))))"

text \<open>Step 3: the light-ink values, for Cyan and Magenta.\<close>

fun update_light_ink :: "channels \<Rightarrow> channels \<Rightarrow> string list \<Rightarrow> params \<Rightarrow> error + params" where
  "update_light_ink curves de_resp [] ps = Inr ps"
| "update_light_ink curves de_resp (color # rest) ps =
     (case (curves color, de_resp color) of
        (Some (inp, out), Some (de_inp, de_curve)) \<Rightarrow>
          (case get_param ps (''Light'' @ color @ ''Value'') of
             Inl e \<Rightarrow> Inl e
           | Inr current_val \<Rightarrow>
               (case get_param ps (''Light'' @ color @ ''Trans'') of
                  Inl e \<Rightarrow> Inl e
                | Inr current_trans \<Rightarrow>
                    (case analyze_light_ink inp out de_curve current_val current_trans of
                       Inl e \<Rightarrow> Inl e
                     | Inr new_val \<Rightarrow>
                         update_light_ink curves de_resp rest
                           (ps(''Light'' @ color @ ''Value'' \<mapsto> new_val)))))
      | _ \<Rightarrow> update_light_ink curves de_resp rest ps)"

text \<open>Step 4: the densities, for the colours present in \<open>de_resp\<close>.\<close>

fun update_density :: "channels \<Rightarrow> string list \<Rightarrow> params \<Rightarrow> error + params" where
  "update_density de_resp [] ps = Inr ps"
| "update_density de_resp (color # rest) ps =
     (case de_resp color of
        None \<Rightarrow> update_density de_resp rest ps
      | Some (de_inp, de_curve) \<Rightarrow>
          (case analyze_density de_inp de_curve of
             Inl e \<Rightarrow> Inl e
           | Inr dens_mod \<Rightarrow>
               (case mul_param ps (color @ ''Density'') dens_mod of
                  Inl e \<Rightarrow> Inl e
                | Inr ps' \<Rightarrow> update_density de_resp rest ps')))"

text \<open>The body of the loop over the files, for one file.\<close>

definition process_file ::
  "(real list \<Rightarrow> real list \<Rightarrow> real option) \<Rightarrow> (string \<Rightarrow> real option) \<Rightarrow> params
     \<Rightarrow> string list \<Rightarrow> error + params" where
  "process_file cf pf ps lines =
     (case parse_cal_file pf lines of
        Inl e \<Rightarrow> Inl e
      | Inr (curves, de_resp) \<Rightarrow>
          (case update_gammas cf curves [''Cyan'', ''Magenta'', ''Yellow'', ''Black''] ps of
             Inl e \<Rightarrow> Inl e
           | Inr ps1 \<Rightarrow>
               (case update_composite cf curves ps1 of
                  Inl e \<Rightarrow> Inl e
                | Inr ps2 \<Rightarrow>
                    (case update_light_ink curves de_resp [''Cyan'', ''Magenta''] ps2 of
                       Inl e \<Rightarrow> Inl e
                     | Inr ps3 \<Rightarrow>
                         update_density de_resp
                           [''Cyan'', ''Magenta'', ''Yellow'', ''Black''] ps3))))"

fun process_files ::
  "(real list \<Rightarrow> real list \<Rightarrow> real option) \<Rightarrow> (string \<Rightarrow> real option) \<Rightarrow> params
     \<Rightarrow> string list list \<Rightarrow> error + params" where
  "process_files cf pf ps [] = Inr ps"
| "process_files cf pf ps (f # fs) =
     (case process_file cf pf ps f of
        Inl e \<Rightarrow> Inl e
      | Inr ps' \<Rightarrow> process_files cf pf ps' fs)"

text \<open>
  \<open>process(cal_files)\<close>: the parameter set that is printed, or the exception that ends the
  run.
\<close>

definition process ::
  "(real list \<Rightarrow> real list \<Rightarrow> real option) \<Rightarrow> (string \<Rightarrow> real option) \<Rightarrow> string list list
     \<Rightarrow> error + params" where
  "process cf pf cal_files =
     (if cal_files = [] then Inl NoInputFiles
      else process_files cf pf DEFAULT_PARAMS cal_files)"

text \<open>
  The estimates that one file contributes, named for the statements below: \<open>g_corr\<close> of
  step 1 for a colour (\<open>chan_gamma\<close>) and \<open>dens_mod\<close> of step 4 (\<open>chan_density\<close>), each 1 when
  the step skips the colour; \<open>gamma_estimate\<close> and \<open>density_estimate\<close> take them from the
  lines of a file.
\<close>

definition chan_gamma ::
  "(real list \<Rightarrow> real list \<Rightarrow> real option) \<Rightarrow> channels \<Rightarrow> string \<Rightarrow> real" where
  "chan_gamma cf curves c =
     (case curves c of None \<Rightarrow> 1 | Some (inp, out) \<Rightarrow> fit_gamma cf inp out)"

definition chan_density :: "channels \<Rightarrow> string \<Rightarrow> real" where
  "chan_density de_resp c =
     (case de_resp c of
        None \<Rightarrow> 1
      | Some (de_inp, de_curve) \<Rightarrow>
          (case analyze_density de_inp de_curve of Inl e \<Rightarrow> 1 | Inr dens_mod \<Rightarrow> dens_mod))"

definition gamma_estimate ::
  "(real list \<Rightarrow> real list \<Rightarrow> real option) \<Rightarrow> (string \<Rightarrow> real option) \<Rightarrow> string
     \<Rightarrow> string list \<Rightarrow> real" where
  "gamma_estimate cf pf c lines =
     (case parse_cal_file pf lines of
        Inl e \<Rightarrow> 1
      | Inr (curves, de_resp) \<Rightarrow> chan_gamma cf curves c)"

definition density_estimate :: "(string \<Rightarrow> real option) \<Rightarrow> string \<Rightarrow> string list \<Rightarrow> real" where
  "density_estimate pf c lines =
     (case parse_cal_file pf lines of
        Inl e \<Rightarrow> 1
      | Inr (curves, de_resp) \<Rightarrow> chan_density de_resp c)"


section \<open>The smoothing variant (\<open>cal2gutenprint_v0.py\<close>)\<close>

definition EPS :: real where
  "EPS = 1 / 1000000"

text \<open>\<open>estimate_density(O) = np.clip(1.0 / max(O[-1], EPS), 0.8, 1.2)\<close>\<close>

definition estimate_density :: "real list \<Rightarrow> error + real" where
  "estimate_density O' =
     (case last_elem O' of
        Inl e \<Rightarrow> Inl e
      | Inr l \<Rightarrow> Inr (np_clip (1 / py_max l EPS) (8 / 10) (12 / 10)))"

text \<open>
  \<open>smooth(prev, new, alpha) = alpha * new + (1 - alpha) * prev\<close>, in float arithmetic:
  two products, a difference and a sum, each rounded.  The smoothing factor is the float
  of the option \<open>--alpha\<close>, 0.4 when the option is not given.
\<close>

definition smooth :: "fval \<Rightarrow> fval \<Rightarrow> fval \<Rightarrow> fval" where
  "smooth prev new alpha = fadd (fmul alpha new) (fmul (fsub (Fin 1) alpha) prev)"


subsection \<open>\<open>parse_cal_blocks\<close>\<close>

text \<open>
  A value of the dictionary \<open>blocks\<close>: the empty Python list stored at a \<open>DESCRIPTOR\<close>
  line, or the array stored at \<open>END_DATA\<close>.  A key is the descriptor's name, or \<open>None\<close>
  when \<open>END_DATA\<close> comes before any descriptor.
\<close>

datatype blockval = PyList | NdArray "real list list"

record bstate =
  blocks :: "string option \<rightharpoonup> blockval"
  current :: "string option"
  data :: "real list list"

text \<open>
  One turn of the loop of \<open>parse_cal_blocks\<close>.  Here \<open>float\<close> is guarded: a line with a
  token that does not parse is passed over.
\<close>

definition parse_block_line ::
  "(string \<Rightarrow> real option) \<Rightarrow> bstate \<Rightarrow> string \<Rightarrow> error + bstate" where
  "parse_block_line pf st raw =
     (let line = strip raw in
      if startswith line ''DESCRIPTOR'' then
        (case split_on (CHR 0x22) line of
           _ # name # _ \<Rightarrow>
             Inr (st\<lparr>current := Some name, blocks := (blocks st)(Some name \<mapsto> PyList),
                     data := []\<rparr>)
         | _ \<Rightarrow> Inl IndexError)
      else if line = ''BEGIN_DATA'' then Inr (st\<lparr>data := []\<rparr>)
      else if line = ''END_DATA'' then
        (case np_array (data st) of
           Inl e \<Rightarrow> Inl e
         | Inr a \<Rightarrow> Inr (st\<lparr>blocks := (blocks st)(current st \<mapsto> NdArray a)\<rparr>))
      else if current st \<noteq> None \<and> current st \<noteq> Some [] \<and> line \<noteq> []
              \<and> \<not> startswith line ''#'' then
        (case floats pf (split_ws line) of
           Inl e \<Rightarrow> Inr st
         | Inr row \<Rightarrow> Inr (st\<lparr>data := data st @ [row]\<rparr>))
      else Inr st)"


fun parse_block_lines ::
  "(string \<Rightarrow> real option) \<Rightarrow> bstate \<Rightarrow> string list \<Rightarrow> error + bstate" where
  "parse_block_lines pf st [] = Inr st"
| "parse_block_lines pf st (l # ls) =
     (case parse_block_line pf st l of
        Inl e \<Rightarrow> Inl e
      | Inr st' \<Rightarrow> parse_block_lines pf st' ls)"

definition parse_cal_blocks ::
  "(string \<Rightarrow> real option) \<Rightarrow> string list \<Rightarrow> error + (string option \<rightharpoonup> blockval)" where
  "parse_cal_blocks pf lines =
     (case parse_block_lines pf \<lparr>blocks = Map.empty, current = None, data = []\<rparr> lines of
        Inl e \<Rightarrow> Inl e
      | Inr st \<Rightarrow> Inr (blocks st))"

subsection \<open>Estimators\<close>

text \<open>
  \<open>estimate_gamma(I, O, weights=None)\<close>.  The logarithm of \<open>I[mask] + EPS\<close> is of positive
  numbers; that of \<open>O[mask] + EPS\<close> is \<open>nan\<close> or \<open>-inf\<close> (with a warning) when a masked
  output is at or below \<open>-EPS\<close>.  The outputs and the weights are arrays that can hold
  values that are not finite (the mean of an empty slice, the weight of a sample with
  \<open>de = -1\<close>).
\<close>

definition estimate_gamma ::
  "lstsq \<Rightarrow> real list \<Rightarrow> fval list \<Rightarrow> fval list option \<Rightarrow> error + fval" where
  "estimate_gamma nf I' O' weights =
     (let msk = map (\<lambda>v. v > 5 / 100 \<and> v < 95 / 100) I' in
      case bool_index I' msk of
        Inl e \<Rightarrow> Inl e
      | Inr I_m \<Rightarrow>
          (case bool_index O' msk of
             Inl e \<Rightarrow> Inl e
           | Inr O_m \<Rightarrow>
               (let x = map (\<lambda>v. ln (v + EPS)) I_m;
                    y = map (\<lambda>v. np_log (fshift EPS v)) O_m
                in case weights of
                     Some ws \<Rightarrow>
                       (case bool_index ws msk of
                          Inl e \<Rightarrow> Inl e
                        | Inr w \<Rightarrow> np_polyfit1 nf x y (Some w))
                   | None \<Rightarrow> np_polyfit1 nf x y None)))"

text \<open>\<open>estimate_transition(I, O) = float(I[np.argmax(np.gradient(np.gradient(O)))])\<close>\<close>

definition estimate_transition :: "real list \<Rightarrow> real list \<Rightarrow> error + real" where
  "estimate_transition I' O' =
     (case np_gradient O' of
        Inl e \<Rightarrow> Inl e
      | Inr d1 \<Rightarrow>
          (case np_gradient d1 of
             Inl e \<Rightarrow> Inl e
           | Inr d2 \<Rightarrow>
               (case np_argmax d2 of
                  Inl e \<Rightarrow> Inl e
                | Inr idx \<Rightarrow> item I' idx)))"

text \<open>
  \<open>estimate_light_scale(I, O, T)\<close>: the mean of \<open>O / (I + EPS)\<close> over \<open>0.05 < I < T\<close>;
  the mean of no sample is \<open>nan\<close>.
\<close>

definition estimate_light_scale :: "real list \<Rightarrow> real list \<Rightarrow> real \<Rightarrow> error + fval" where
  "estimate_light_scale I' O' T =
     (let msk = map (\<lambda>v. v > 5 / 100 \<and> v < T) I' in
      case bool_index O' msk of
        Inl e \<Rightarrow> Inl e
      | Inr O_m \<Rightarrow>
          (case bool_index I' msk of
             Inl e \<Rightarrow> Inl e
           | Inr I_m \<Rightarrow> Inr (np_mean (map2 (\<lambda>ov iv. ov / (iv + EPS)) O_m I_m))))"

text \<open>
  \<open>estimate_light_value(I, O, T)\<close>: \<open>O / (I + EPS)\<close> at the sample nearest to \<open>T\<close>; the
  quotient is not finite when that input level is \<open>-EPS\<close>.
\<close>

definition estimate_light_value :: "real list \<Rightarrow> real list \<Rightarrow> real \<Rightarrow> error + fval" where
  "estimate_light_value I' O' T =
     (case np_argmin (map (\<lambda>v. \<bar>v - T\<bar>) I') of
        Inl e \<Rightarrow> Inl e
      | Inr idx \<Rightarrow>
          (case item O' idx of
             Inl e \<Rightarrow> Inl e
           | Inr ov \<Rightarrow>
               (case item I' idx of
                  Inl e \<Rightarrow> Inl e
                | Inr iv \<Rightarrow> Inr (np_divide ov (iv + EPS)))))"

text \<open>
  For the statement about knees: \<open>levels x0 h n\<close> are \<open>n\<close> input levels from \<open>x0\<close> in steps
  of \<open>h\<close>; \<open>knee_curve t c s1 s2\<close> is the piecewise-linear curve through \<open>(t, c)\<close> with
  slope \<open>s1\<close> up to \<open>t\<close> and slope \<open>s2\<close> beyond; \<open>ramp \<tau>\<close> is the unit ramp that starts at
  the (fractional) index \<open>\<tau>\<close>.
\<close>

definition knee_curve :: "real \<Rightarrow> real \<Rightarrow> real \<Rightarrow> real \<Rightarrow> real \<Rightarrow> real" where
  "knee_curve t c s1 s2 x = (if x \<le> t then c + s1 * (x - t) else c + s2 * (x - t))"

definition levels :: "real \<Rightarrow> real \<Rightarrow> nat \<Rightarrow> real list" where
  "levels x0 h n = map (\<lambda>i. x0 + real i * h) [0..<n]"

definition ramp :: "real \<Rightarrow> nat \<Rightarrow> real" where
  "ramp \<tau> i = max 0 (real i - \<tau>)"

subsection \<open>\<open>main\<close>\<close>

definition curves_name :: string where
  "curves_name = ''Argyll Device Calibration Curves''"

definition de_name :: string where
  "de_name = ''Argyll Output Calibration Expected DE Response''"

type_synonym fparams = "string \<rightharpoonup> fval"

definition main_defaults :: fparams where
  "main_defaults = map_of
     [(''LightCyanValue'', Fin 1), (''LightCyanScale'', Fin 1), (''LightCyanTrans'', Fin (5 / 10)),
      (''CyanGamma'', Fin 1), (''CyanDensity'', Fin 1),
      (''LightMagentaValue'', Fin 1), (''LightMagentaScale'', Fin 1),
      (''LightMagentaTrans'', Fin (5 / 10)),
      (''MagentaGamma'', Fin 1), (''MagentaDensity'', Fin 1),
      (''YellowGamma'', Fin 1), (''YellowDensity'', Fin 1),
      (''BlackGamma'', Fin 1), (''BlackDensity'', Fin 1),
      (''CompositeGamma'', Fin 1)]"

text \<open>\<open>blocks[name]\<close>, and \<open>b[:, i]\<close> on what it gives (a Python list has no such index).\<close>

definition get_block :: "(string option \<rightharpoonup> blockval) \<Rightarrow> string \<Rightarrow> error + blockval" where
  "get_block bs name = (case bs (Some name) of None \<Rightarrow> Inl KeyError | Some b \<Rightarrow> Inr b)"

definition block_column :: "blockval \<Rightarrow> nat \<Rightarrow> error + real list" where
  "block_column b i = (case b of PyList \<Rightarrow> Inl TypeError | NdArray a \<Rightarrow> column a i)"

text \<open>
  \<open>weights = 1 / (1 + de[:, 1])\<close>; a sample with \<open>de = -1\<close> gives the weight \<open>inf\<close>, with a
  warning.
\<close>

definition de_weights :: "real list \<Rightarrow> fval list" where
  "de_weights de1 = map (\<lambda>v. np_divide 1 (1 + v)) de1"

text \<open>
  \<open>params[k] = smooth(params[k], <estimate>, alpha)\<close>: the old value is read, then the
  estimate is computed, then the result is stored.  \<open>finite_result\<close> is for the
  estimators whose result is always a finite number.
\<close>

definition finite_result :: "error + real \<Rightarrow> error + fval" where
  "finite_result r = (case r of Inl e \<Rightarrow> Inl e | Inr v \<Rightarrow> Inr (Fin v))"

definition smooth_into :: "fparams \<Rightarrow> string \<Rightarrow> error + fval \<Rightarrow> fval \<Rightarrow> error + fparams" where
  "smooth_into ps k est alpha =
     (case ps k of
        None \<Rightarrow> Inl KeyError
      | Some prev \<Rightarrow>
          (case est of
             Inl e \<Rightarrow> Inl e
           | Inr new \<Rightarrow> Inr (ps(k \<mapsto> smooth prev new alpha))))"

text \<open>
  The paragraphs "Cyan" and "Magenta" of the loop body are the same code on columns 1
  and 2; the paragraphs "Yellow" and "Black" are the same code on columns 3 and 4.
\<close>

definition light_channel ::
  "lstsq \<Rightarrow> fval \<Rightarrow> real list \<Rightarrow> fval list \<Rightarrow> blockval \<Rightarrow> nat \<Rightarrow> string \<Rightarrow> fparams
     \<Rightarrow> error + fparams" where
  "light_channel nf alpha I' weights curves i name ps =
     (case block_column curves i of
        Inl e \<Rightarrow> Inl e
      | Inr C \<Rightarrow>
     (case estimate_transition I' C of
        Inl e \<Rightarrow> Inl e
      | Inr T \<Rightarrow>
     (case smooth_into ps (''Light'' @ name @ ''Trans'') (Inr (Fin T)) alpha of
        Inl e \<Rightarrow> Inl e
      | Inr ps1 \<Rightarrow>
     (case smooth_into ps1 (''Light'' @ name @ ''Scale'') (estimate_light_scale I' C T) alpha of
        Inl e \<Rightarrow> Inl e
      | Inr ps2 \<Rightarrow>
     (case smooth_into ps2 (''Light'' @ name @ ''Value'') (estimate_light_value I' C T) alpha of
        Inl e \<Rightarrow> Inl e
      | Inr ps3 \<Rightarrow>
     (case smooth_into ps3 (name @ ''Gamma'')
             (estimate_gamma nf I' (map Fin C) (Some weights)) alpha of
        Inl e \<Rightarrow> Inl e
      | Inr ps4 \<Rightarrow>
          smooth_into ps4 (name @ ''Density'') (finite_result (estimate_density C)) alpha))))))"

definition dark_channel ::
  "lstsq \<Rightarrow> fval \<Rightarrow> real list \<Rightarrow> blockval \<Rightarrow> nat \<Rightarrow> string \<Rightarrow> fparams \<Rightarrow> error + fparams" where
  "dark_channel nf alpha I' curves i name ps =
     (case block_column curves i of
        Inl e \<Rightarrow> Inl e
      | Inr Y \<Rightarrow>
     (case smooth_into ps (name @ ''Gamma'') (estimate_gamma nf I' (map Fin Y) None) alpha of
        Inl e \<Rightarrow> Inl e
      | Inr ps1 \<Rightarrow>
          smooth_into ps1 (name @ ''Density'') (finite_result (estimate_density Y)) alpha))"

text \<open>
  The composite gamma: \<open>gray = np.mean(curves[:, 1:4], axis=1)\<close>, the mean of each row over
  its columns 1 to 3 (\<open>nan\<close> for a row that has none of them), then
  \<open>estimate_gamma(I, gray)\<close>.
\<close>

definition gray_curve :: "blockval \<Rightarrow> error + fval list" where
  "gray_curve curves =
     (case curves of
        PyList \<Rightarrow> Inl TypeError
      | NdArray a \<Rightarrow> Inr (map (\<lambda>r. np_mean (take 3 (drop 1 r))) a))"

definition composite_channel ::
  "lstsq \<Rightarrow> fval \<Rightarrow> real list \<Rightarrow> blockval \<Rightarrow> fparams \<Rightarrow> error + fparams" where
  "composite_channel nf alpha I' curves ps =
     (case gray_curve curves of
        Inl e \<Rightarrow> Inl e
      | Inr gray \<Rightarrow>
          smooth_into ps ''CompositeGamma'' (estimate_gamma nf I' gray None) alpha)"

text \<open>The body of the loop of \<open>main\<close>, for one file.\<close>

definition main_file ::
  "lstsq \<Rightarrow> (string \<Rightarrow> real option) \<Rightarrow> fval \<Rightarrow> fparams \<Rightarrow> string list \<Rightarrow> error + fparams" where
  "main_file nf pf alpha ps lines =
     (case parse_cal_blocks pf lines of
        Inl e \<Rightarrow> Inl e
      | Inr bs \<Rightarrow>
     (case get_block bs curves_name of
        Inl e \<Rightarrow> Inl e
      | Inr curves \<Rightarrow>
     (case get_block bs de_name of
        Inl e \<Rightarrow> Inl e
      | Inr de \<Rightarrow>
     (case block_column curves 0 of
        Inl e \<Rightarrow> Inl e
      | Inr I' \<Rightarrow>
     (case block_column de 1 of
        Inl e \<Rightarrow> Inl e
      | Inr de1 \<Rightarrow>
     (case light_channel nf alpha I' (de_weights de1) curves 1 ''Cyan'' ps of
        Inl e \<Rightarrow> Inl e
      | Inr ps1 \<Rightarrow>
     (case light_channel nf alpha I' (de_weights de1) curves 2 ''Magenta'' ps1 of
        Inl e \<Rightarrow> Inl e
      | Inr ps2 \<Rightarrow>
     (case dark_channel nf alpha I' curves 3 ''Yellow'' ps2 of
        Inl e \<Rightarrow> Inl e
      | Inr ps3 \<Rightarrow>
     (case dark_channel nf alpha I' curves 4 ''Black'' ps3 of
        Inl e \<Rightarrow> Inl e
      | Inr ps4 \<Rightarrow> composite_channel nf alpha I' curves ps4)))))))))"

fun main_files ::
  "lstsq \<Rightarrow> (string \<Rightarrow> real option) \<Rightarrow> fval \<Rightarrow> fparams \<Rightarrow> string list list
     \<Rightarrow> error + fparams" where
  "main_files nf pf alpha ps [] = Inr ps"
| "main_files nf pf alpha ps (f # fs) =
     (case main_file nf pf alpha ps f of
        Inl e \<Rightarrow> Inl e
      | Inr ps' \<Rightarrow> main_files nf pf alpha ps' fs)"

text \<open>\<open>main(cal_files, alpha)\<close>: the parameter set that is printed.\<close>

definition main ::
  "lstsq \<Rightarrow> (string \<Rightarrow> real option) \<Rightarrow> fval \<Rightarrow> string list list \<Rightarrow> error + fparams" where
  "main nf pf alpha cal_files = main_files nf pf alpha main_defaults cal_files"


section \<open>Concrete instances of the parameters\<close>

text \<open>
  The closed theorems below run the parsers on concrete lines, with \<open>dec_float\<close> for
  Python's \<open>float\<close>: decimal literals with an optional sign, an optional fraction and an
  optional exponent.  On these it is \<open>float\<close> (without the rounding); the other literal
  forms that \<open>float\<close> accepts (\<open>inf\<close>, \<open>nan\<close>, underscores between digits) are left out and
  occur in no theorem.
\<close>

fun digits_val :: "string \<Rightarrow> nat \<Rightarrow> nat option" where
  "digits_val [] acc = Some acc"
| "digits_val (c # cs) acc =
     (let n = (of_char c :: nat)
      in if 48 \<le> n \<and> n \<le> 57 then digits_val cs (10 * acc + (n - 48)) else None)"

definition dec_nat :: "string \<Rightarrow> nat option" where
  "dec_nat s = (if s = [] then None else digits_val s 0)"

definition dec_mantissa :: "string \<Rightarrow> real option" where
  "dec_mantissa s =
     (let ip = takeWhile (\<lambda>c. c \<noteq> CHR ''.'') s;
          rest = dropWhile (\<lambda>c. c \<noteq> CHR ''.'') s
      in case rest of
           [] \<Rightarrow> map_option real (dec_nat ip)
         | _ # fp \<Rightarrow>
             if ip = [] \<and> fp = [] then None
             else (case (digits_val ip 0, digits_val fp 0) of
                     (Some a, Some b) \<Rightarrow> Some (real a + real b / 10 ^ length fp)
                   | _ \<Rightarrow> None))"

definition dec_exponent :: "string \<Rightarrow> int option" where
  "dec_exponent s =
     (case s of
        [] \<Rightarrow> None
      | c # cs \<Rightarrow>
          if c = CHR ''-'' then map_option (\<lambda>n. - int n) (dec_nat cs)
          else if c = CHR ''+'' then map_option int (dec_nat cs)
          else map_option int (dec_nat s))"

definition dec_unsigned :: "string \<Rightarrow> real option" where
  "dec_unsigned s =
     (let is_e = (\<lambda>c. c = CHR ''e'' \<or> c = CHR ''E'');
          m = takeWhile (\<lambda>c. \<not> is_e c) s;
          rest = dropWhile (\<lambda>c. \<not> is_e c) s
      in case rest of
           [] \<Rightarrow> dec_mantissa m
         | _ # ex \<Rightarrow>
             (case (dec_mantissa m, dec_exponent ex) of
                (Some v, Some k) \<Rightarrow>
                  Some (if k \<ge> 0 then v * 10 ^ nat k else v / 10 ^ nat (- k))
              | _ \<Rightarrow> None))"

definition dec_float :: "string \<Rightarrow> real option" where
  "dec_float s =
     (case s of
        [] \<Rightarrow> None
      | c # cs \<Rightarrow>
          if c = CHR ''-'' then map_option uminus (dec_unsigned cs)
          else if c = CHR ''+'' then dec_unsigned cs
          else dec_unsigned s)"

text \<open>Two stand-ins for \<open>curve_fit\<close>: one that always raises, one that always returns 2.\<close>

definition fit_fails :: "real list \<Rightarrow> real list \<Rightarrow> real option" where
  "fit_fails x y = None"

definition fit_two :: "real list \<Rightarrow> real list \<Rightarrow> real option" where
  "fit_two x y = Some 2"

text \<open>
  A stand-in for the least-squares routine on data that are not finite: the one that
  raises.
\<close>

definition nf_raises :: lstsq where
  "nf_raises x y w = Inl LinAlgError"

text \<open>A file with both blocks, two samples each.\<close>

definition cal_full :: "string list" where
  "cal_full =
     [curves_descriptor, ''BEGIN_DATA'',
      ''0.5 0.25 0.5 0.5 0.5'', ''1.0 1.0 1.0 1.0 1.0'', ''END_DATA'',
      de_descriptor, ''BEGIN_DATA'',
      ''0.9375 2 30 30 30'', ''1.0 1 31 31 31'', ''END_DATA'']"

text \<open>
  A file for the smoothing variant: four samples, of which two lie in the range
  \<open>0.05 < I < 0.95\<close> of the gamma fit, with \<open>I + EPS\<close> equal to 1/4 and 1/2.  There the
  Cyan, Magenta and Black outputs double and the Yellow output grows eightfold.
\<close>

definition cal_knee :: "string list" where
  "cal_knee =
     [''DESCRIPTOR '' @ [CHR 0x22] @ curves_name @ [CHR 0x22], ''BEGIN_DATA'',
      ''0.249999 0.124999 0.124999 0.124999 0.124999'',
      ''0.499999 0.249999 0.249999 0.999999 0.249999'',
      ''0.96 0.5 0.5 1.0 0.5'',
      ''1.0 1.0 1.0 1.0 1.0'',
      ''END_DATA'',
      ''DESCRIPTOR '' @ [CHR 0x22] @ de_name @ [CHR 0x22], ''BEGIN_DATA'',
      ''0 0'', ''0 0'', ''0 0'', ''0 0'', ''END_DATA'']"

text \<open>
  A file for the smoothing variant with straight curves: the outputs grow by 1/8 from
  sample to sample.  The last sample has \<open>de = -1\<close>.
\<close>

definition cal_linear :: "string list" where
  "cal_linear =
     [''DESCRIPTOR '' @ [CHR 0x22] @ curves_name @ [CHR 0x22], ''BEGIN_DATA'',
      ''0.249999 0.125 0.125 0.125 0.125'',
      ''0.499999 0.25 0.25 0.25 0.25'',
      ''0.96 0.375 0.375 0.375 0.375'',
      ''1.0 0.5 0.5 0.5 0.5'',
      ''END_DATA'',
      ''DESCRIPTOR '' @ [CHR 0x22] @ de_name @ [CHR 0x22], ''BEGIN_DATA'',
      ''0 0'', ''0 0'', ''0 0'', ''0 -1'', ''END_DATA'']"

text \<open>The value that a run prints for a key; \<open>None\<close> when the run raised.\<close>

definition reported :: "error + (string \<rightharpoonup> 'a) \<Rightarrow> string \<Rightarrow> 'a option" where
  "reported r k = (case r of Inl e \<Rightarrow> None | Inr ps \<Rightarrow> ps k)"


definition cal_de_only :: "string list" where
  "cal_de_only =
     [de_descriptor, ''BEGIN_DATA'', ''0.9375 2 30 30 30'', ''1.0 1 31 31 31'', ''END_DATA'']"




section \<open>Properties of the smoothing variant\<close>

lemma py_max_eq_max: "py_max a b = max a b"
  by (simp add: py_max_def max_def)

lemma py_min_eq_min: "py_min a b = min a b"
  by (simp add: py_min_def min_def)

subsection \<open>Rounding\<close>

lemma pow2_powr: "pow2 e = 2 powr (real_of_int e)"
proof (cases "0 \<le> e")
  case True
  then have "2 powr (real_of_int e) = (2::real) ^ nat e"
    by (metis of_int_of_nat_eq of_nat_numeral powr_realpow zero_less_numeral nat_0_le of_nat_0_less_iff)
  then show ?thesis using True by (simp add: pow2_def)
next
  case False
  then have "2 powr (real_of_int e) = 1 / (2::real) ^ nat (- e)"
    by (simp add: powr_minus_divide powr_realpow [symmetric] del: powr_realpow)
  then show ?thesis using False by (simp add: pow2_def)
qed

lemma pow2_pos: "0 < pow2 e"
  by (simp add: pow2_powr)

lemma pow2_add: "pow2 (a + b) = pow2 a * pow2 b"
  by (simp add: pow2_powr powr_add)

lemma binade_eq:
  assumes "pow2 e \<le> \<bar>x\<bar>" and "\<bar>x\<bar> < pow2 (e + 1)"
  shows "binade x = e"
proof -
  have pos: "0 < \<bar>x\<bar>" using assms(1) pow2_pos [of e] by linarith
  have "real_of_int e \<le> log 2 \<bar>x\<bar>"
    using assms(1) pos by (simp add: pow2_powr le_log_iff)
  moreover have "log 2 \<bar>x\<bar> < real_of_int (e + 1)"
    using assms(2) pos by (simp add: pow2_powr log_less_iff del: of_int_add)
  ultimately show ?thesis
    unfolding binade_def by (simp add: floor_unique)
qed

lemma round_double_eval:
  assumes "pow2 e \<le> \<bar>x\<bar>" and "\<bar>x\<bar> < pow2 (e + 1)" and "- 1022 \<le> e"
    and "rne (x / pow2 (e - 52)) = n"
    and "\<bar>of_int n * pow2 (e - 52)\<bar> < pow2 1024"
  shows "round_double x = Fin (of_int n * pow2 (e - 52))"
proof -
  have "x \<noteq> 0" using assms(1) pow2_pos [of e] by auto
  moreover have "binade x = e" using assms(1,2) by (rule binade_eq)
  moreover have "max e (- 1022) = e" using assms(3) by simp
  ultimately show ?thesis
    using assms(4,5) by (simp add: round_double_def Let_def)
qed

lemma rne_err: "\<bar>of_int (rne y) - y\<bar> \<le> 1 / 2"
proof -
  have "of_int \<lfloor>y\<rfloor> \<le> y" "y < of_int \<lfloor>y\<rfloor> + 1" by linarith+
  then show ?thesis unfolding rne_def Let_def by auto
qed

lemma pow2_binade_le:
  assumes "x \<noteq> 0"
  shows "pow2 (binade x) \<le> \<bar>x\<bar>"
proof -
  have "real_of_int \<lfloor>log 2 \<bar>x\<bar>\<rfloor> \<le> log 2 \<bar>x\<bar>" by linarith
  then have "2 powr real_of_int \<lfloor>log 2 \<bar>x\<bar>\<rfloor> \<le> 2 powr log 2 \<bar>x\<bar>"
    by (simp only: powr_le_cancel_iff [of 2] one_less_numeral_iff semiring_norm)
  also have "\<dots> = \<bar>x\<bar>" using assms by simp
  finally show ?thesis by (simp add: pow2_powr binade_def)
qed

lemma pow2_mono: "a \<le> b \<Longrightarrow> pow2 a \<le> pow2 b"
  by (simp add: pow2_powr)

lemma round_double_error:
  assumes "\<bar>x\<bar> \<le> pow2 1010"
  shows "\<exists>r. round_double x = Fin r \<and> \<bar>r - x\<bar> \<le> \<bar>x\<bar> / 2 ^ 53 + pow2 (- 1075)"
proof (cases "x = 0")
  case True
  then show ?thesis using pow2_pos [of "- 1075"] by (simp add: round_double_def)
next
  case False
  define e where "e = max (binade x) (- 1022)"
  define q where "q = pow2 (e - 52)"
  define r where "r = of_int (rne (x / q)) * q"
  have qpos: "0 < q" unfolding q_def by (rule pow2_pos)
  have "r - x = q * (of_int (rne (x / q)) - x / q)"
    using qpos unfolding r_def by (simp add: algebra_simps)
  then have "\<bar>r - x\<bar> = q * \<bar>of_int (rne (x / q)) - x / q\<bar>"
    using qpos by (simp add: abs_mult)
  also have "\<dots> \<le> q * (1 / 2)"
    using qpos rne_err [of "x / q"] by (intro mult_left_mono) auto
  finally have half: "\<bar>r - x\<bar> \<le> q / 2" by simp
  have q2: "q / 2 = pow2 e * pow2 (- 53)"
  proof -
    have "q = pow2 e * pow2 (- 52)" unfolding q_def using pow2_add [of e "- 52"] by simp
    moreover have "pow2 (- 52) / 2 = pow2 (- 53)" by (simp add: pow2_def)
    ultimately show ?thesis by simp
  qed
  have bound: "q / 2 \<le> \<bar>x\<bar> / 2 ^ 53 + pow2 (- 1075)"
  proof (cases "- 1022 \<le> binade x")
    case True
    then have "e = binade x" unfolding e_def by simp
    then have "pow2 e \<le> \<bar>x\<bar>" using pow2_binade_le [OF False] by simp
    then have "pow2 e * pow2 (- 53) \<le> \<bar>x\<bar> * pow2 (- 53)"
      using pow2_pos [of "- 53"] by (intro mult_right_mono) auto
    moreover have "\<bar>x\<bar> * pow2 (- 53) = \<bar>x\<bar> / 2 ^ 53" by (simp add: pow2_def)
    ultimately show ?thesis using q2 pow2_pos [of "- 1075"] by linarith
  next
    case False
    then have "e = - 1022" unfolding e_def by simp
    then have "q / 2 = pow2 (- 1022 + - 53)" using q2 pow2_add [of "- 1022" "- 53"] by simp
    then have "q / 2 = pow2 (- 1075)" by simp
    then show ?thesis by simp
  qed
  have small: "pow2 (- 1075) \<le> 1" using pow2_mono [of "- 1075" 0] by (simp add: pow2_def)
  have "\<bar>r\<bar> \<le> \<bar>x\<bar> + \<bar>r - x\<bar>" by linarith
  also have "\<dots> \<le> \<bar>x\<bar> + \<bar>x\<bar> / 2 ^ 53 + pow2 (- 1075)" using half bound by linarith
  also have "\<dots> \<le> \<bar>x\<bar> + \<bar>x\<bar> + 1"
  proof -
    have "\<bar>x\<bar> / 2 ^ 53 \<le> \<bar>x\<bar>" by (simp add: divide_le_eq)
    then show ?thesis using small by linarith
  qed
  also have "\<dots> \<le> pow2 1010 + pow2 1010 + 1" using assms by linarith
  also have "\<dots> < pow2 1024" by (simp add: pow2_def)
  finally have "\<not> pow2 1024 \<le> \<bar>r\<bar>" by simp
  then have "round_double x = Fin r"
    using \<open>x \<noteq> 0\<close> unfolding round_double_def r_def q_def e_def by (simp add: Let_def)
  then show ?thesis using half bound by auto
qed

lemma smooth_fixed_point_error:
  assumes s: "\<bar>s\<bar> \<le> 2 ^ 1000" and a0: "0 \<le> \<alpha>" and a1: "\<alpha> \<le> 1"
  shows "\<exists>r. smooth (Fin s) (Fin s) (Fin \<alpha>) = Fin r \<and> \<bar>r - s\<bar> \<le> \<bar>s\<bar> / 2 ^ 50 + 1 / 2 ^ 1073"
proof -
  define u :: real where "u = 1 / 2 ^ 53"
  define \<eta> where "\<eta> = pow2 (- 1075)"
  define S where "S = \<bar>s\<bar>"
  have u: "0 < u" "u \<le> 1 / 8" unfolding u_def by simp_all
  have \<eta>: "0 < \<eta>" "\<eta> \<le> u" unfolding \<eta>_def u_def by (simp_all add: pow2_def)
  have S: "0 \<le> S" "S \<le> 2 ^ 1000" unfolding S_def using s by simp_all
  have big: "(2::real) ^ 1000 * 4 \<le> pow2 1010" by (simp add: pow2_def)
  have rd: "\<And>x. \<bar>x\<bar> \<le> pow2 1010 \<Longrightarrow> \<exists>r. round_double x = Fin r \<and> \<bar>r - x\<bar> \<le> u * \<bar>x\<bar> + \<eta>"
    using round_double_error unfolding u_def \<eta>_def by simp
  have as: "\<bar>\<alpha> * s\<bar> \<le> S"
  proof -
    have "\<bar>\<alpha> * s\<bar> = \<alpha> * S" using a0 unfolding S_def by (simp add: abs_mult)
    also have "\<dots> \<le> 1 * S" using a1 S(1) by (intro mult_right_mono) auto
    finally show ?thesis by simp
  qed
  obtain a where a: "round_double (\<alpha> * s) = Fin a" "\<bar>a - \<alpha> * s\<bar> \<le> u * \<bar>\<alpha> * s\<bar> + \<eta>"
    using rd [of "\<alpha> * s"] as S big by auto
  have ea: "\<bar>a - \<alpha> * s\<bar> \<le> u * S + \<eta>"
  proof -
    have "u * \<bar>\<alpha> * s\<bar> \<le> u * S" using as u(1) by (intro mult_left_mono) auto
    then show ?thesis using a(2) by linarith
  qed
  obtain b where b: "round_double (1 - \<alpha>) = Fin b" "\<bar>b - (1 - \<alpha>)\<bar> \<le> u * \<bar>1 - \<alpha>\<bar> + \<eta>"
  proof -
    have "\<bar>1 - \<alpha>\<bar> \<le> pow2 1010" using a0 a1 big by simp
    then show ?thesis using rd [of "1 - \<alpha>"] that by auto
  qed
  have eb: "\<bar>b - (1 - \<alpha>)\<bar> \<le> 2 * u"
  proof -
    have "u * \<bar>1 - \<alpha>\<bar> \<le> u * 1" using a0 a1 u(1) by (intro mult_left_mono) auto
    then show ?thesis using b(2) \<eta>(2) by linarith
  qed
  have b2: "\<bar>b\<bar> \<le> 2" using eb a0 a1 u(2) by linarith
  have bs: "\<bar>b * s\<bar> \<le> 2 * S"
  proof -
    have "\<bar>b * s\<bar> = \<bar>b\<bar> * S" unfolding S_def by (simp add: abs_mult)
    also have "\<dots> \<le> 2 * S" using b2 S(1) by (intro mult_right_mono) auto
    finally show ?thesis .
  qed
  obtain c where c: "round_double (b * s) = Fin c" "\<bar>c - b * s\<bar> \<le> u * \<bar>b * s\<bar> + \<eta>"
    using rd [of "b * s"] bs S big by auto
  have ec: "\<bar>c - b * s\<bar> \<le> 2 * (u * S) + \<eta>"
  proof -
    have "u * \<bar>b * s\<bar> \<le> u * (2 * S)" using bs u(1) by (intro mult_left_mono) auto
    then show ?thesis using c(2) by linarith
  qed
  have ed: "\<bar>b * s - (1 - \<alpha>) * s\<bar> \<le> 2 * (u * S)"
  proof -
    have "\<bar>b * s - (1 - \<alpha>) * s\<bar> = \<bar>b - (1 - \<alpha>)\<bar> * S"
      unfolding S_def by (simp add: abs_mult [symmetric] algebra_simps)
    also have "\<dots> \<le> (2 * u) * S" using eb S(1) by (intro mult_right_mono) auto
    finally show ?thesis by simp
  qed
  have split: "a + c - s = (a - \<alpha> * s) + (c - b * s) + (b * s - (1 - \<alpha>) * s)"
    by (simp add: algebra_simps)
  have esum: "\<bar>a + c - s\<bar> \<le> 5 * (u * S) + 2 * \<eta>"
    unfolding split using ea ec ed by linarith
  have uS: "u * S \<le> S / 8" "0 \<le> u * S"
    using u S(1) mult_right_mono [of u "1 / 8" S] by simp_all
  have ac: "\<bar>a + c\<bar> \<le> 2 * S + 2 * \<eta>"
  proof -
    have "\<bar>a + c\<bar> \<le> \<bar>s\<bar> + \<bar>a + c - s\<bar>" by linarith
    then show ?thesis using esum uS unfolding S_def by linarith
  qed
  obtain r where r: "round_double (a + c) = Fin r" "\<bar>r - (a + c)\<bar> \<le> u * \<bar>a + c\<bar> + \<eta>"
  proof -
    have "\<eta> \<le> 1" using \<eta>(2) u(2) by linarith
    moreover have "(2::real) ^ 1000 * 4 + 2 \<le> pow2 1010" by (simp add: pow2_def)
    ultimately have "\<bar>a + c\<bar> \<le> pow2 1010" using ac S by linarith
    then show ?thesis using rd [of "a + c"] that by auto
  qed
  have er: "\<bar>r - (a + c)\<bar> \<le> 2 * (u * S) + 2 * \<eta>"
  proof -
    have "u * \<bar>a + c\<bar> \<le> u * (2 * S + 2 * \<eta>)" using ac u(1) by (intro mult_left_mono) auto
    moreover have "u * (2 * \<eta>) \<le> \<eta>"
      using mult_right_mono [of u "1 / 8" "2 * \<eta>"] u \<eta>(1) by simp
    moreover have "u * (2 * S + 2 * \<eta>) = 2 * (u * S) + u * (2 * \<eta>)"
      by (simp add: algebra_simps)
    ultimately show ?thesis using r(2) by linarith
  qed
  have "\<bar>r - s\<bar> \<le> \<bar>r - (a + c)\<bar> + \<bar>a + c - s\<bar>" by linarith
  then have "\<bar>r - s\<bar> \<le> 7 * (u * S) + 4 * \<eta>" using er esum by linarith
  moreover have "7 * (u * S) \<le> S / 2 ^ 50"
  proof -
    have "7 * (u * S) \<le> 8 * (u * S)" using uS(2) by linarith
    also have "\<dots> = S / 2 ^ 50" unfolding u_def by simp
    finally show ?thesis .
  qed
  moreover have "4 * \<eta> = 1 / 2 ^ 1073" unfolding \<eta>_def by (simp add: pow2_def)
  ultimately have "\<bar>r - s\<bar> \<le> \<bar>s\<bar> / 2 ^ 50 + 1 / 2 ^ 1073" unfolding S_def by linarith
  moreover have "smooth (Fin s) (Fin s) (Fin \<alpha>) = Fin r"
    by (simp add: smooth_def fsub_def a(1) b(1) c(1) r(1))
  ultimately show ?thesis by blast
qed

text \<open>The rounding of some numbers.\<close>

lemma round_double_zero: "round_double 0 = Fin 0"
  by (simp add: round_double_def)

lemma round_double_one: "round_double (1) = Fin (1)"
proof -
  have a: "pow2 (0) \<le> \<bar>1 :: real\<bar>" by (simp add: pow2_def)
  have b: "\<bar>1 :: real\<bar> < pow2 (0 + 1)" by (simp add: pow2_def)
  have c: "rne ((1) / pow2 (0 - 52)) = 4503599627370496"
    by (simp add: pow2_def rne_def Let_def)
  have d: "\<bar>of_int 4503599627370496 * pow2 (0 - 52)\<bar> < pow2 1024"
    by (simp add: pow2_def)
  show ?thesis
    using round_double_eval [OF a b _ c d] by (simp add: pow2_def)
qed

lemma round_double_two: "round_double (2) = Fin (2)"
proof -
  have a: "pow2 (1) \<le> \<bar>2 :: real\<bar>" by (simp add: pow2_def)
  have b: "\<bar>2 :: real\<bar> < pow2 (1 + 1)" by (simp add: pow2_def)
  have c: "rne ((2) / pow2 (1 - 52)) = 4503599627370496"
    by (simp add: pow2_def rne_def Let_def)
  have d: "\<bar>of_int 4503599627370496 * pow2 (1 - 52)\<bar> < pow2 1024"
    by (simp add: pow2_def)
  show ?thesis
    using round_double_eval [OF a b _ c d] by (simp add: pow2_def)
qed

lemma round_double_three: "round_double (3) = Fin (3)"
proof -
  have a: "pow2 (1) \<le> \<bar>3 :: real\<bar>" by (simp add: pow2_def)
  have b: "\<bar>3 :: real\<bar> < pow2 (1 + 1)" by (simp add: pow2_def)
  have c: "rne ((3) / pow2 (1 - 52)) = 6755399441055744"
    by (simp add: pow2_def rne_def Let_def)
  have d: "\<bar>of_int 6755399441055744 * pow2 (1 - 52)\<bar> < pow2 1024"
    by (simp add: pow2_def)
  show ?thesis
    using round_double_eval [OF a b _ c d] by (simp add: pow2_def)
qed

lemma round_double_half: "round_double (1 / 2) = Fin (1 / 2)"
proof -
  have a: "pow2 (- 1) \<le> \<bar>1 / 2 :: real\<bar>" by (simp add: pow2_def)
  have b: "\<bar>1 / 2 :: real\<bar> < pow2 (- 1 + 1)" by (simp add: pow2_def)
  have c: "rne ((1 / 2) / pow2 (- 1 - 52)) = 4503599627370496"
    by (simp add: pow2_def rne_def Let_def)
  have d: "\<bar>of_int 4503599627370496 * pow2 (- 1 - 52)\<bar> < pow2 1024"
    by (simp add: pow2_def)
  show ?thesis
    using round_double_eval [OF a b _ c d] by (simp add: pow2_def)
qed

lemma round_double_tenth: "round_double (1 / 10) = Fin (3602879701896397 / 36028797018963968)"
proof -
  have a: "pow2 (- 4) \<le> \<bar>1 / 10 :: real\<bar>" by (simp add: pow2_def)
  have b: "\<bar>1 / 10 :: real\<bar> < pow2 (- 4 + 1)" by (simp add: pow2_def)
  have c: "rne ((1 / 10) / pow2 (- 4 - 52)) = 7205759403792794"
    by (simp add: pow2_def rne_def Let_def)
  have d: "\<bar>of_int 7205759403792794 * pow2 (- 4 - 52)\<bar> < pow2 1024"
    by (simp add: pow2_def)
  show ?thesis
    using round_double_eval [OF a b _ c d] by (simp add: pow2_def)
qed

lemma round_double_three_tenths: "round_double (3 / 10) = Fin (5404319552844595 / 18014398509481984)"
proof -
  have a: "pow2 (- 2) \<le> \<bar>3 / 10 :: real\<bar>" by (simp add: pow2_def)
  have b: "\<bar>3 / 10 :: real\<bar> < pow2 (- 2 + 1)" by (simp add: pow2_def)
  have c: "rne ((3 / 10) / pow2 (- 2 - 52)) = 5404319552844595"
    by (simp add: pow2_def rne_def Let_def)
  have d: "\<bar>of_int 5404319552844595 * pow2 (- 2 - 52)\<bar> < pow2 1024"
    by (simp add: pow2_def)
  show ?thesis
    using round_double_eval [OF a b _ c d] by (simp add: pow2_def)
qed

lemma round_double_product_new: "round_double (19471113219505603967277331424215 / 649037107316853453566312041152512) = Fin (1080863910568919 / 36028797018963968)"
proof -
  have a: "pow2 (- 6) \<le> \<bar>19471113219505603967277331424215 / 649037107316853453566312041152512 :: real\<bar>" by (simp add: pow2_def)
  have b: "\<bar>19471113219505603967277331424215 / 649037107316853453566312041152512 :: real\<bar> < pow2 (- 6 + 1)" by (simp add: pow2_def)
  have c: "rne ((19471113219505603967277331424215 / 649037107316853453566312041152512) / pow2 (- 6 - 52)) = 8646911284551352"
    by (simp add: pow2_def rne_def Let_def)
  have d: "\<bar>of_int 8646911284551352 * pow2 (- 6 - 52)\<bar> < pow2 1024"
    by (simp add: pow2_def)
  show ?thesis
    using round_double_eval [OF a b _ c d] by (simp add: pow2_def)
qed

lemma round_double_complement: "round_double (12610078956637389 / 18014398509481984) = Fin (3152519739159347 / 4503599627370496)"
proof -
  have a: "pow2 (- 1) \<le> \<bar>12610078956637389 / 18014398509481984 :: real\<bar>" by (simp add: pow2_def)
  have b: "\<bar>12610078956637389 / 18014398509481984 :: real\<bar> < pow2 (- 1 + 1)" by (simp add: pow2_def)
  have c: "rne ((12610078956637389 / 18014398509481984) / pow2 (- 1 - 52)) = 6305039478318694"
    by (simp add: pow2_def rne_def Let_def)
  have d: "\<bar>of_int 6305039478318694 * pow2 (- 1 - 52)\<bar> < pow2 1024"
    by (simp add: pow2_def)
  show ?thesis
    using round_double_eval [OF a b _ c d] by (simp add: pow2_def)
qed

lemma round_double_product_prev: "round_double (11358149378044935347338468172759 / 162259276829213363391578010288128) = Fin (5044031582654955 / 72057594037927936)"
proof -
  have a: "pow2 (- 4) \<le> \<bar>11358149378044935347338468172759 / 162259276829213363391578010288128 :: real\<bar>" by (simp add: pow2_def)
  have b: "\<bar>11358149378044935347338468172759 / 162259276829213363391578010288128 :: real\<bar> < pow2 (- 4 + 1)" by (simp add: pow2_def)
  have c: "rne ((11358149378044935347338468172759 / 162259276829213363391578010288128) / pow2 (- 4 - 52)) = 5044031582654955"
    by (simp add: pow2_def rne_def Let_def)
  have d: "\<bar>of_int 5044031582654955 * pow2 (- 4 - 52)\<bar> < pow2 1024"
    by (simp add: pow2_def)
  show ?thesis
    using round_double_eval [OF a b _ c d] by (simp add: pow2_def)
qed

lemma round_double_sum: "round_double (7205759403792793 / 72057594037927936) = Fin (7205759403792793 / 72057594037927936)"
proof -
  have a: "pow2 (- 4) \<le> \<bar>7205759403792793 / 72057594037927936 :: real\<bar>" by (simp add: pow2_def)
  have b: "\<bar>7205759403792793 / 72057594037927936 :: real\<bar> < pow2 (- 4 + 1)" by (simp add: pow2_def)
  have c: "rne ((7205759403792793 / 72057594037927936) / pow2 (- 4 - 52)) = 7205759403792793"
    by (simp add: pow2_def rne_def Let_def)
  have d: "\<bar>of_int 7205759403792793 * pow2 (- 4 - 52)\<bar> < pow2 1024"
    by (simp add: pow2_def)
  show ?thesis
    using round_double_eval [OF a b _ c d] by (simp add: pow2_def)
qed

lemma is_float_small:
  "is_float (Fin 0)" "is_float (Fin 1)" "is_float (Fin 2)" "is_float (Fin 3)"
  "is_float (Fin (1 / 2))"
  by (simp_all add: is_float_def round_double_zero round_double_one round_double_two
      round_double_three round_double_half)

text \<open>With \<open>\<alpha> = 1\<close> the products and the sum are exact when the old state is finite.\<close>

lemma smooth_alpha_one:
  assumes "is_float new"
  shows "smooth (Fin prev) new (Fin 1) = new"
proof (cases new)
  case (Fin n)
  then have "round_double n = Fin n" using assms by (simp add: is_float_def)
  then show ?thesis using Fin by (simp add: smooth_def fsub_def round_double_zero)
qed (simp_all add: smooth_def fsub_def round_double_zero)

text \<open>
  Claim C8.  On floats the exponential-smoothing rule \<open>smooth(old, estimate, \<alpha>) =
  \<alpha>\<cdot>estimate + (1-\<alpha>)\<cdot>old\<close> has a state as a fixed point only up to rounding: for a
  finite state \<open>s\<close> of magnitude at most \<open>2^1000\<close> and \<open>0 \<le> \<alpha> \<le> 1\<close>, smoothing with an
  estimate equal to the state returns a finite value within \<open>|s| / 2^50 + 2^-1073\<close> of \<open>s\<close>.
  With \<open>\<alpha> = 1\<close> and a finite old state the result is the estimate, whatever float the
  estimate is (\<open>inf\<close> and \<open>nan\<close> included).
\<close>

theorem smooth_fixed_point_up_to_rounding:
  "(\<bar>s\<bar> \<le> 2 ^ 1000 \<and> 0 \<le> \<alpha> \<and> \<alpha> \<le> 1 \<longrightarrow>
      (\<exists>r. smooth (Fin s) (Fin s) (Fin \<alpha>) = Fin r \<and> \<bar>r - s\<bar> \<le> \<bar>s\<bar> / 2 ^ 50 + 1 / 2 ^ 1073))
   \<and> (is_float new \<longrightarrow> smooth (Fin prev) new (Fin 1) = new)"
  using smooth_fixed_point_error [of s \<alpha>] smooth_alpha_one [of new prev] by blast

theorem smooth_fixed_point_up_to_rounding_witness:
  "(\<exists>r. smooth (Fin (3602879701896397 / 36028797018963968)) (Fin (3602879701896397 / 36028797018963968))
           (Fin (5404319552844595 / 18014398509481984)) = Fin r
        \<and> \<bar>r - 3602879701896397 / 36028797018963968\<bar>
            \<le> \<bar>3602879701896397 / 36028797018963968 :: real\<bar> / 2 ^ 50 + 1 / 2 ^ 1073)
   \<and> smooth (Fin 5) (Fin 2) (Fin 1) = Fin 2"
proof -
  have s: "\<bar>3602879701896397 / 36028797018963968 :: real\<bar> \<le> 2 ^ 1000" by simp
  have a: "(0::real) \<le> 5404319552844595 / 18014398509481984"
    "5404319552844595 / 18014398509481984 \<le> (1::real)" by simp_all
  show ?thesis
    using smooth_fixed_point_up_to_rounding
      [of "3602879701896397 / 36028797018963968" "5404319552844595 / 18014398509481984" "Fin 2" 5]
      s a is_float_small(3)
    by blast
qed

text \<open>
  The fixed point is not exact, and a state that is not finite is kept even with
  \<open>\<alpha> = 1\<close>.  \<open>smooth(0.1, 0.1, 0.3)\<close> is \<open>0.09999999999999999\<close>: the floats \<open>0.1\<close> and \<open>0.3\<close>
  are the first two numbers below, and the result is one unit in the last place below
  \<open>0.1\<close>.  \<open>smooth(nan, 0.5, 1.0)\<close> and \<open>smooth(inf, 0.5, 1.0)\<close> are \<open>nan\<close>.
\<close>

theorem smooth_not_exact_counterexample:
  "round_double (1 / 10) = Fin (3602879701896397 / 36028797018963968)
   \<and> round_double (3 / 10) = Fin (5404319552844595 / 18014398509481984)
   \<and> smooth (Fin (3602879701896397 / 36028797018963968)) (Fin (3602879701896397 / 36028797018963968))
        (Fin (5404319552844595 / 18014398509481984)) = Fin (7205759403792793 / 72057594037927936)
   \<and> smooth (Fin (3602879701896397 / 36028797018963968)) (Fin (3602879701896397 / 36028797018963968))
        (Fin (5404319552844595 / 18014398509481984)) \<noteq> Fin (3602879701896397 / 36028797018963968)
   \<and> smooth NaN (Fin (1 / 2)) (Fin 1) = NaN
   \<and> smooth PosInf (Fin (1 / 2)) (Fin 1) = NaN"
proof -
  have r: "smooth (Fin (3602879701896397 / 36028797018963968)) (Fin (3602879701896397 / 36028797018963968))
        (Fin (5404319552844595 / 18014398509481984)) = Fin (7205759403792793 / 72057594037927936)"
    by (simp add: smooth_def fsub_def round_double_product_new round_double_complement
        round_double_product_prev round_double_sum)
  have n: "smooth NaN (Fin (1 / 2)) (Fin 1) = NaN" "smooth PosInf (Fin (1 / 2)) (Fin 1) = NaN"
    by (simp_all add: smooth_def fsub_def round_double_zero round_double_half)
  show ?thesis
    unfolding r using round_double_tenth round_double_three_tenths n by simp
qed

text \<open>
  Claim C10.  For a non-empty output array the density estimator of the smoothing variant
  returns \<open>1 / max(O[last], 1e-6)\<close> clipped to \<open>[0.8, 1.2]\<close>; the result lies in that
  interval, and any other non-empty array with the same final sample gives the same
  result (the estimator has no other argument, in particular no error-response curve).
\<close>

theorem estimate_density_clipped:
  assumes "O' \<noteq> []"
  shows "\<exists>d. estimate_density O' = Inr d
           \<and> d = min (max (1 / max (last O') (1 / 1000000)) (8 / 10)) (12 / 10)
           \<and> 8 / 10 \<le> d \<and> d \<le> 12 / 10
           \<and> (\<forall>P. P \<noteq> [] \<and> last P = last O' \<longrightarrow> estimate_density P = Inr d)"
proof -
  define d where "d = min (max (1 / max (last O') (1 / 1000000)) (8 / 10)) (12 / 10 :: real)"
  have val: "P \<noteq> [] \<Longrightarrow> last P = last O' \<Longrightarrow> estimate_density P = Inr d" for P
    by (simp add: estimate_density_def last_elem_def np_clip_def py_max_eq_max EPS_def d_def)
  have lo: "8 / 10 \<le> d"
    unfolding d_def by (intro min.boundedI max.cobounded2) simp
  have hi: "d \<le> 12 / 10"
    unfolding d_def by (rule min.cobounded2)
  from val [OF assms] val lo hi d_def show ?thesis
    by blast
qed

theorem estimate_density_clipped_witness:
  "[3 / 10, 2 :: real] \<noteq> [] \<and> estimate_density [3 / 10, 2] = Inr (8 / 10)"
proof -
  have ne: "[3 / 10, 2 :: real] \<noteq> []" by simp
  from estimate_density_clipped [OF ne] obtain d where
    "estimate_density [3 / 10, 2] = Inr d"
    and "d = min (max (1 / max (last [3 / 10, 2]) (1 / 1000000)) (8 / 10)) (12 / 10)"
    by blast
  then show ?thesis by simp
qed


section \<open>Properties of the multiplicative variant\<close>

subsection \<open>Evaluating the parser and the run on the concrete files\<close>

lemmas parse_defs = parse_cal_file_def parse_line_def strip_def py_isspace_def py_isdigit_def
  startswith_def curves_descriptor_def de_descriptor_def np_array_def structure_data_def
  width_def split_ws_def dec_float_def dec_unsigned_def dec_mantissa_def dec_nat_def
  column_def CHAN_IDX_def

lemmas process_defs = process_def process_file_def update_composite_def
  mul_param_def get_param_def DEFAULT_PARAMS_def analyze_light_ink_def analyze_density_def
  bool_index_def fit_gamma_def mean_def py_max_def py_min_def

lemma parse_cal_full:
  "parse_cal_file dec_float cal_full =
     Inr ([''Cyan'' \<mapsto> ([1 / 2, 1], [1 / 4, 1]), ''Magenta'' \<mapsto> ([1 / 2, 1], [1 / 2, 1]),
           ''Yellow'' \<mapsto> ([1 / 2, 1], [1 / 2, 1]), ''Black'' \<mapsto> ([1 / 2, 1], [1 / 2, 1])],
          [''Cyan'' \<mapsto> ([15 / 16, 1], [2, 1]), ''Magenta'' \<mapsto> ([15 / 16, 1], [30, 31]),
           ''Yellow'' \<mapsto> ([15 / 16, 1], [30, 31]), ''Black'' \<mapsto> ([15 / 16, 1], [30, 31])])"
  by (simp add: cal_full_def parse_defs)

subsection \<open>What each step writes\<close>

lemma mul_param_Inr:
  "mul_param ps k g = Inr ps' \<Longrightarrow> \<exists>v. ps k = Some v \<and> ps' = ps(k \<mapsto> v * g)"
  by (auto simp: mul_param_def split: option.splits)

lemma dom_upd_same: "k \<in> dom m \<Longrightarrow> dom (m(k \<mapsto> v)) = dom m"
  by auto

lemma mul_param_dom: "mul_param ps k g = Inr ps' \<Longrightarrow> dom ps' = dom ps"
  by (auto simp: mul_param_def split: option.splits if_splits)

lemma update_gammas_frame:
  "update_gammas cf curves cs ps = Inr ps' \<Longrightarrow> \<forall>c \<in> set cs. c @ ''Gamma'' \<noteq> k
     \<Longrightarrow> ps' k = ps k"
proof (induction cs arbitrary: ps)
  case Nil
  then show ?case by simp
next
  case (Cons c cs)
  show ?case
  proof (cases "curves c")
    case None
    with Cons show ?thesis by simp
  next
    case (Some io)
    obtain inp out where io: "io = (inp, out)" by (cases io)
    from Cons.prems(1) Some io obtain ps1 where
      m: "mul_param ps (c @ ''Gamma'') (fit_gamma cf inp out) = Inr ps1"
      and r: "update_gammas cf curves cs ps1 = Inr ps'"
      by (auto split: sum.splits)
    from mul_param_Inr [OF m] Cons.prems(2) have "ps1 k = ps k" by auto
    moreover from Cons.IH [OF r] Cons.prems(2) have "ps' k = ps1 k" by simp
    ultimately show ?thesis by simp
  qed
qed

lemma update_gammas_dom:
  "update_gammas cf curves cs ps = Inr ps' \<Longrightarrow> dom ps' = dom ps"
proof (induction cs arbitrary: ps)
  case Nil
  then show ?case by simp
next
  case (Cons c cs)
  show ?case
  proof (cases "curves c")
    case None
    with Cons show ?thesis by simp
  next
    case (Some io)
    obtain inp out where io: "io = (inp, out)" by (cases io)
    from Cons.prems(1) Some io obtain ps1 where
      m: "mul_param ps (c @ ''Gamma'') (fit_gamma cf inp out) = Inr ps1"
      and r: "update_gammas cf curves cs ps1 = Inr ps'"
      by (auto split: sum.splits)
    from mul_param_dom [OF m] have "dom ps1 = dom ps" .
    with Cons.IH [OF r] show ?thesis by simp
  qed
qed

lemma update_composite_Inr:
  "update_composite cf curves ps = Inr ps' \<Longrightarrow>
     \<exists>v. ps ''CompositeGamma'' = Some v \<and>
       ps' = ps(''CompositeGamma'' \<mapsto>
         v * ((chan_gamma cf curves ''Cyan'' + chan_gamma cf curves ''Magenta''
               + chan_gamma cf curves ''Yellow'') / 3))
       \<and> curves ''Cyan'' \<noteq> None \<and> curves ''Magenta'' \<noteq> None \<and> curves ''Yellow'' \<noteq> None"
  by (auto simp: update_composite_def chan_gamma_def Let_def split: option.splits dest!: mul_param_Inr)

lemma update_composite_dom:
  assumes "update_composite cf curves ps = Inr ps'"
  shows "dom ps' = dom ps"
proof -
  from assms obtain g where "mul_param ps ''CompositeGamma'' g = Inr ps'"
    by (auto simp: update_composite_def Let_def split: option.splits)
  then show ?thesis by (rule mul_param_dom)
qed

lemma update_light_ink_frame:
  "update_light_ink curves de_resp cs ps = Inr ps'
     \<Longrightarrow> \<forall>c \<in> set cs. ''Light'' @ c @ ''Value'' \<noteq> k \<Longrightarrow> ps' k = ps k"
proof (induction cs arbitrary: ps)
  case Nil
  then show ?case by simp
next
  case (Cons c cs)
  show ?case
  proof (cases "curves c \<noteq> None \<and> de_resp c \<noteq> None")
    case False
    with Cons show ?thesis by (auto split: option.splits)
  next
    case True
    with Cons.prems(1) obtain nv where
      r: "update_light_ink curves de_resp cs (ps(''Light'' @ c @ ''Value'' \<mapsto> nv)) = Inr ps'"
      by (auto split: sum.splits)
    from Cons.IH [OF r] Cons.prems(2) show ?thesis by auto
  qed
qed

lemma update_light_ink_dom:
  "update_light_ink curves de_resp cs ps = Inr ps' \<Longrightarrow> dom ps' = dom ps"
proof (induction cs arbitrary: ps)
  case Nil
  then show ?case by simp
next
  case (Cons c cs)
  show ?case
  proof (cases "curves c \<noteq> None \<and> de_resp c \<noteq> None")
    case False
    with Cons.prems have "update_light_ink curves de_resp cs ps = Inr ps'"
      by (auto split: option.splits)
    then show ?thesis by (rule Cons.IH)
  next
    case True
    with Cons.prems(1) obtain nv v where
      r: "update_light_ink curves de_resp cs (ps(''Light'' @ c @ ''Value'' \<mapsto> nv)) = Inr ps'"
      and g: "get_param ps (''Light'' @ c @ ''Value'') = Inr v"
      by (auto split: sum.splits)
    from g have "''Light'' @ c @ ''Value'' \<in> dom ps"
      by (auto simp: get_param_def split: option.splits)
    then have "dom (ps(''Light'' @ c @ ''Value'' \<mapsto> nv)) = dom ps"
      by (rule dom_upd_same)
    with Cons.IH [OF r] show ?thesis by (rule trans)
  qed
qed

lemma update_density_frame:
  "update_density de_resp cs ps = Inr ps' \<Longrightarrow> \<forall>c \<in> set cs. c @ ''Density'' \<noteq> k
     \<Longrightarrow> ps' k = ps k"
proof (induction cs arbitrary: ps)
  case Nil
  then show ?case by simp
next
  case (Cons c cs)
  show ?case
  proof (cases "de_resp c")
    case None
    with Cons show ?thesis by simp
  next
    case (Some io)
    obtain inp de where io: "io = (inp, de)" by (cases io)
    from Cons.prems(1) Some io obtain ps1 d where
      m: "mul_param ps (c @ ''Density'') d = Inr ps1"
      and r: "update_density de_resp cs ps1 = Inr ps'"
      by (auto split: sum.splits)
    from mul_param_Inr [OF m] Cons.prems(2) have "ps1 k = ps k" by auto
    moreover from Cons.IH [OF r] Cons.prems(2) have "ps' k = ps1 k" by simp
    ultimately show ?thesis by simp
  qed
qed

lemma update_density_dom:
  "update_density de_resp cs ps = Inr ps' \<Longrightarrow> dom ps' = dom ps"
proof (induction cs arbitrary: ps)
  case Nil
  then show ?case by simp
next
  case (Cons c cs)
  show ?case
  proof (cases "de_resp c")
    case None
    with Cons show ?thesis by simp
  next
    case (Some io)
    obtain inp de where io: "io = (inp, de)" by (cases io)
    from Cons.prems(1) Some io obtain ps1 d where
      m: "mul_param ps (c @ ''Density'') d = Inr ps1"
      and r: "update_density de_resp cs ps1 = Inr ps'"
      by (auto split: sum.splits)
    from mul_param_dom [OF m] have "dom ps1 = dom ps" .
    with Cons.IH [OF r] show ?thesis by simp
  qed
qed

lemma process_file_steps:
  assumes "process_file cf pf ps lines = Inr ps'"
  obtains curves de_resp ps1 ps2 ps3 where
    "parse_cal_file pf lines = Inr (curves, de_resp)"
    "update_gammas cf curves [''Cyan'', ''Magenta'', ''Yellow'', ''Black''] ps = Inr ps1"
    "update_composite cf curves ps1 = Inr ps2"
    "update_light_ink curves de_resp [''Cyan'', ''Magenta''] ps2 = Inr ps3"
    "update_density de_resp [''Cyan'', ''Magenta'', ''Yellow'', ''Black''] ps3 = Inr ps'"
  using assms unfolding process_file_def
  by (auto split: sum.splits prod.splits)

lemma process_file_frame:
  assumes "process_file cf pf ps lines = Inr ps'"
    and "\<forall>c \<in> {''Cyan'', ''Magenta'', ''Yellow'', ''Black''}. c @ ''Gamma'' \<noteq> k \<and> c @ ''Density'' \<noteq> k"
    and "k \<noteq> ''CompositeGamma''"
    and "\<forall>c \<in> {''Cyan'', ''Magenta''}. ''Light'' @ c @ ''Value'' \<noteq> k"
  shows "ps' k = ps k"
proof -
  from assms(1) obtain curves de_resp ps1 ps2 ps3 where
    s1: "update_gammas cf curves [''Cyan'', ''Magenta'', ''Yellow'', ''Black''] ps = Inr ps1"
    and s2: "update_composite cf curves ps1 = Inr ps2"
    and s3: "update_light_ink curves de_resp [''Cyan'', ''Magenta''] ps2 = Inr ps3"
    and s4: "update_density de_resp [''Cyan'', ''Magenta'', ''Yellow'', ''Black''] ps3 = Inr ps'"
    by (rule process_file_steps)
  have "ps1 k = ps k"
    using update_gammas_frame [OF s1, of k] assms(2) by simp
  moreover have "ps2 k = ps1 k"
    using update_composite_Inr [OF s2] assms(3) by auto
  moreover have "ps3 k = ps2 k"
    using update_light_ink_frame [OF s3, of k] assms(4) by simp
  moreover have "ps' k = ps3 k"
    using update_density_frame [OF s4, of k] assms(2) by simp
  ultimately show ?thesis by simp
qed

lemma process_file_dom:
  assumes "process_file cf pf ps lines = Inr ps'"
  shows "dom ps' = dom ps"
proof -
  from assms(1) obtain curves de_resp ps1 ps2 ps3 where
    s1: "update_gammas cf curves [''Cyan'', ''Magenta'', ''Yellow'', ''Black''] ps = Inr ps1"
    and s2: "update_composite cf curves ps1 = Inr ps2"
    and s3: "update_light_ink curves de_resp [''Cyan'', ''Magenta''] ps2 = Inr ps3"
    and s4: "update_density de_resp [''Cyan'', ''Magenta'', ''Yellow'', ''Black''] ps3 = Inr ps'"
    by (rule process_file_steps)
  have "dom ps2 = dom ps1" using update_composite_dom [OF s2] .
  with update_gammas_dom [OF s1] update_light_ink_dom [OF s3] update_density_dom [OF s4]
  show ?thesis by simp
qed

lemma process_files_frame:
  assumes "process_files cf pf ps files = Inr ps'"
    and "\<forall>c \<in> {''Cyan'', ''Magenta'', ''Yellow'', ''Black''}. c @ ''Gamma'' \<noteq> k \<and> c @ ''Density'' \<noteq> k"
    and "k \<noteq> ''CompositeGamma''"
    and "\<forall>c \<in> {''Cyan'', ''Magenta''}. ''Light'' @ c @ ''Value'' \<noteq> k"
  shows "ps' k = ps k"
  using assms(1)
proof (induction files arbitrary: ps)
  case Nil
  then show ?case by simp
next
  case (Cons f fs)
  from Cons.prems obtain ps1 where
    a: "process_file cf pf ps f = Inr ps1" and b: "process_files cf pf ps1 fs = Inr ps'"
    by (auto split: sum.splits)
  from process_file_frame [OF a assms(2) assms(3) assms(4)] Cons.IH [OF b]
  show ?case by simp
qed

lemma process_files_dom:
  "process_files cf pf ps files = Inr ps' \<Longrightarrow> dom ps' = dom ps"
proof (induction files arbitrary: ps)
  case Nil
  then show ?case by simp
next
  case (Cons f fs)
  from Cons.prems obtain ps1 where
    a: "process_file cf pf ps f = Inr ps1" and b: "process_files cf pf ps1 fs = Inr ps'"
    by (auto split: sum.splits)
  from process_file_dom [OF a] Cons.IH [OF b] show ?case by simp
qed

lemma card_dom_DEFAULT_PARAMS: "card (dom DEFAULT_PARAMS) = 15"
  by (simp add: DEFAULT_PARAMS_def dom_map_of_conv_image_fst)

lemma update_gammas_key:
  "update_gammas cf curves cs ps = Inr ps' \<Longrightarrow> distinct cs \<Longrightarrow> c \<in> set cs
     \<Longrightarrow> ps' (c @ ''Gamma'') = map_option (\<lambda>v. v * chan_gamma cf curves c) (ps (c @ ''Gamma''))"
proof (induction cs arbitrary: ps)
  case Nil
  then show ?case by simp
next
  case (Cons a cs)
  show ?case
  proof (cases "curves a")
    case None
    with Cons.prems have r: "update_gammas cf curves cs ps = Inr ps'" by simp
    show ?thesis
    proof (cases "a = c")
      case True
      with Cons.prems(2) have "\<forall>c' \<in> set cs. c' @ ''Gamma'' \<noteq> c @ ''Gamma''" by auto
      from update_gammas_frame [OF r this] None True show ?thesis
        by (cases "ps (c @ ''Gamma'')") (simp_all add: chan_gamma_def)
    next
      case False
      with Cons.prems Cons.IH [OF r] show ?thesis by simp
    qed
  next
    case (Some io)
    obtain inp out where io: "io = (inp, out)" by (cases io)
    from Cons.prems(1) Some io obtain ps1 where
      m: "mul_param ps (a @ ''Gamma'') (fit_gamma cf inp out) = Inr ps1"
      and r: "update_gammas cf curves cs ps1 = Inr ps'"
      by (auto split: sum.splits)
    from mul_param_Inr [OF m] obtain v where
      v: "ps (a @ ''Gamma'') = Some v" and ps1: "ps1 = ps(a @ ''Gamma'' \<mapsto> v * fit_gamma cf inp out)"
      by blast
    show ?thesis
    proof (cases "a = c")
      case True
      with Cons.prems(2) have "\<forall>c' \<in> set cs. c' @ ''Gamma'' \<noteq> c @ ''Gamma''" by auto
      from update_gammas_frame [OF r this] have "ps' (c @ ''Gamma'') = ps1 (c @ ''Gamma'')" .
      with True v ps1 Some io show ?thesis by (simp add: chan_gamma_def)
    next
      case False
      with Cons.prems have "distinct cs" "c \<in> set cs" by auto
      from Cons.IH [OF r this] False ps1 show ?thesis by simp
    qed
  qed
qed

lemma update_density_key:
  "update_density de_resp cs ps = Inr ps' \<Longrightarrow> distinct cs \<Longrightarrow> c \<in> set cs
     \<Longrightarrow> ps' (c @ ''Density'') = map_option (\<lambda>v. v * chan_density de_resp c) (ps (c @ ''Density''))"
proof (induction cs arbitrary: ps)
  case Nil
  then show ?case by simp
next
  case (Cons a cs)
  show ?case
  proof (cases "de_resp a")
    case None
    with Cons.prems have r: "update_density de_resp cs ps = Inr ps'" by simp
    show ?thesis
    proof (cases "a = c")
      case True
      with Cons.prems(2) have "\<forall>c' \<in> set cs. c' @ ''Density'' \<noteq> c @ ''Density''" by auto
      from update_density_frame [OF r this] None True show ?thesis
        by (cases "ps (c @ ''Density'')") (simp_all add: chan_density_def)
    next
      case False
      with Cons.prems Cons.IH [OF r] show ?thesis by simp
    qed
  next
    case (Some io)
    obtain inp de where io: "io = (inp, de)" by (cases io)
    from Cons.prems(1) Some io obtain ps1 d where
      d: "analyze_density inp de = Inr d"
      and m: "mul_param ps (a @ ''Density'') d = Inr ps1"
      and r: "update_density de_resp cs ps1 = Inr ps'"
      by (auto split: sum.splits)
    from mul_param_Inr [OF m] obtain v where
      v: "ps (a @ ''Density'') = Some v" and ps1: "ps1 = ps(a @ ''Density'' \<mapsto> v * d)"
      by blast
    show ?thesis
    proof (cases "a = c")
      case True
      with Cons.prems(2) have "\<forall>c' \<in> set cs. c' @ ''Density'' \<noteq> c @ ''Density''" by auto
      from update_density_frame [OF r this] have "ps' (c @ ''Density'') = ps1 (c @ ''Density'')" .
      with True v ps1 Some io d show ?thesis by (simp add: chan_density_def)
    next
      case False
      with Cons.prems have "distinct cs" "c \<in> set cs" by auto
      from Cons.IH [OF r this] False ps1 show ?thesis by simp
    qed
  qed
qed

lemma process_file_gamma:
  assumes run: "process_file cf pf ps lines = Inr ps'"
    and c: "c \<in> {''Cyan'', ''Magenta'', ''Yellow'', ''Black''}"
  shows "ps' (c @ ''Gamma'') =
           map_option (\<lambda>v. v * gamma_estimate cf pf c lines) (ps (c @ ''Gamma''))"
proof -
  from run obtain curves de_resp ps1 ps2 ps3 where
    p: "parse_cal_file pf lines = Inr (curves, de_resp)"
    and s1: "update_gammas cf curves [''Cyan'', ''Magenta'', ''Yellow'', ''Black''] ps = Inr ps1"
    and s2: "update_composite cf curves ps1 = Inr ps2"
    and s3: "update_light_ink curves de_resp [''Cyan'', ''Magenta''] ps2 = Inr ps3"
    and s4: "update_density de_resp [''Cyan'', ''Magenta'', ''Yellow'', ''Black''] ps3 = Inr ps'"
    by (rule process_file_steps)
  have "ps1 (c @ ''Gamma'') = map_option (\<lambda>v. v * chan_gamma cf curves c) (ps (c @ ''Gamma''))"
    using update_gammas_key [OF s1, of c] c by simp
  moreover have "ps2 (c @ ''Gamma'') = ps1 (c @ ''Gamma'')"
    using update_composite_Inr [OF s2] c by auto
  moreover have "ps3 (c @ ''Gamma'') = ps2 (c @ ''Gamma'')"
    using update_light_ink_frame [OF s3, of "c @ ''Gamma''"] c by auto
  moreover have "ps' (c @ ''Gamma'') = ps3 (c @ ''Gamma'')"
    using update_density_frame [OF s4, of "c @ ''Gamma''"] c by auto
  ultimately show ?thesis
    using p by (simp add: gamma_estimate_def)
qed

lemma process_file_density:
  assumes run: "process_file cf pf ps lines = Inr ps'"
    and c: "c \<in> {''Cyan'', ''Magenta'', ''Yellow'', ''Black''}"
  shows "ps' (c @ ''Density'') =
           map_option (\<lambda>v. v * density_estimate pf c lines) (ps (c @ ''Density''))"
proof -
  from run obtain curves de_resp ps1 ps2 ps3 where
    p: "parse_cal_file pf lines = Inr (curves, de_resp)"
    and s1: "update_gammas cf curves [''Cyan'', ''Magenta'', ''Yellow'', ''Black''] ps = Inr ps1"
    and s2: "update_composite cf curves ps1 = Inr ps2"
    and s3: "update_light_ink curves de_resp [''Cyan'', ''Magenta''] ps2 = Inr ps3"
    and s4: "update_density de_resp [''Cyan'', ''Magenta'', ''Yellow'', ''Black''] ps3 = Inr ps'"
    by (rule process_file_steps)
  have "ps1 (c @ ''Density'') = ps (c @ ''Density'')"
    using update_gammas_frame [OF s1, of "c @ ''Density''"] c by auto
  moreover have "ps2 (c @ ''Density'') = ps1 (c @ ''Density'')"
    using update_composite_Inr [OF s2] c by auto
  moreover have "ps3 (c @ ''Density'') = ps2 (c @ ''Density'')"
    using update_light_ink_frame [OF s3, of "c @ ''Density''"] c by auto
  moreover have "ps' (c @ ''Density'') =
      map_option (\<lambda>v. v * chan_density de_resp c) (ps3 (c @ ''Density''))"
    using update_density_key [OF s4, of c] c by simp
  ultimately show ?thesis
    using p by (simp add: density_estimate_def)
qed

lemma process_file_composite:
  assumes run: "process_file cf pf ps lines = Inr ps'"
  shows "\<exists>v. ps ''CompositeGamma'' = Some v \<and>
           ps' ''CompositeGamma'' =
             Some (v * ((gamma_estimate cf pf ''Cyan'' lines + gamma_estimate cf pf ''Magenta'' lines
                         + gamma_estimate cf pf ''Yellow'' lines) / 3))"
proof -
  from run obtain curves de_resp ps1 ps2 ps3 where
    p: "parse_cal_file pf lines = Inr (curves, de_resp)"
    and s1: "update_gammas cf curves [''Cyan'', ''Magenta'', ''Yellow'', ''Black''] ps = Inr ps1"
    and s2: "update_composite cf curves ps1 = Inr ps2"
    and s3: "update_light_ink curves de_resp [''Cyan'', ''Magenta''] ps2 = Inr ps3"
    and s4: "update_density de_resp [''Cyan'', ''Magenta'', ''Yellow'', ''Black''] ps3 = Inr ps'"
    by (rule process_file_steps)
  have a: "ps1 ''CompositeGamma'' = ps ''CompositeGamma''"
    using update_gammas_frame [OF s1, of "''CompositeGamma''"] by simp
  from update_composite_Inr [OF s2] obtain v where
    v: "ps1 ''CompositeGamma'' = Some v"
    and b: "ps2 ''CompositeGamma'' =
         Some (v * ((chan_gamma cf curves ''Cyan'' + chan_gamma cf curves ''Magenta''
               + chan_gamma cf curves ''Yellow'') / 3))"
    by auto
  have c: "ps3 ''CompositeGamma'' = ps2 ''CompositeGamma''"
    using update_light_ink_frame [OF s3, of "''CompositeGamma''"] by simp
  have d: "ps' ''CompositeGamma'' = ps3 ''CompositeGamma''"
    using update_density_frame [OF s4, of "''CompositeGamma''"] by simp
  have g: "gamma_estimate cf pf k lines = chan_gamma cf curves k" for k
    using p by (simp add: gamma_estimate_def)
  from a v have "ps ''CompositeGamma'' = Some v" by simp
  moreover from b c d have "ps' ''CompositeGamma'' =
         Some (v * ((chan_gamma cf curves ''Cyan'' + chan_gamma cf curves ''Magenta''
               + chan_gamma cf curves ''Yellow'') / 3))" by simp
  ultimately show ?thesis
    unfolding g by blast
qed

lemma process_files_gamma:
  assumes c: "c \<in> {''Cyan'', ''Magenta'', ''Yellow'', ''Black''}"
  shows "process_files cf pf ps files = Inr ps' \<Longrightarrow>
     ps' (c @ ''Gamma'') =
       map_option (\<lambda>v. foldl (*) v (map (gamma_estimate cf pf c) files)) (ps (c @ ''Gamma''))"
proof (induction files arbitrary: ps)
  case Nil
  then show ?case by (simp add: option.map_ident)
next
  case (Cons f fs)
  from Cons.prems obtain ps1 where
    a: "process_file cf pf ps f = Inr ps1" and b: "process_files cf pf ps1 fs = Inr ps'"
    by (auto split: sum.splits)
  from process_file_gamma [OF a c] Cons.IH [OF b] show ?case
    by (cases "ps (c @ ''Gamma'')") simp_all
qed

subsection \<open>The parameters that are never written\<close>

text \<open>
  Claim C9.  In the multiplicative variant no per-file update writes \<open>LightCyanScale\<close>,
  \<open>LightCyanTrans\<close>, \<open>LightMagentaScale\<close> or \<open>LightMagentaTrans\<close>: whatever the files
  are, when the run completes each of the four still has its default (1.0, 0.6, 1.0,
  0.6), and the reported parameter set has its fifteen keys.
\<close>

theorem light_scale_trans_never_written:
  assumes "process cf pf cal_files = Inr ps"
  shows "ps ''LightCyanScale'' = Some 1 \<and> ps ''LightCyanTrans'' = Some (6 / 10)
       \<and> ps ''LightMagentaScale'' = Some 1 \<and> ps ''LightMagentaTrans'' = Some (6 / 10)
       \<and> card (dom ps) = 15"
proof -
  from assms have run: "process_files cf pf DEFAULT_PARAMS cal_files = Inr ps"
    by (simp add: process_def split: if_splits)
  have "ps ''LightCyanScale'' = DEFAULT_PARAMS ''LightCyanScale''"
    by (rule process_files_frame [OF run]) simp_all
  moreover have "ps ''LightCyanTrans'' = DEFAULT_PARAMS ''LightCyanTrans''"
    by (rule process_files_frame [OF run]) simp_all
  moreover have "ps ''LightMagentaScale'' = DEFAULT_PARAMS ''LightMagentaScale''"
    by (rule process_files_frame [OF run]) simp_all
  moreover have "ps ''LightMagentaTrans'' = DEFAULT_PARAMS ''LightMagentaTrans''"
    by (rule process_files_frame [OF run]) simp_all
  moreover have "card (dom ps) = 15"
    using process_files_dom [OF run] card_dom_DEFAULT_PARAMS by simp
  ultimately show ?thesis
    by (simp add: DEFAULT_PARAMS_def)
qed

theorem light_scale_trans_never_written_witness:
  "case process fit_two dec_float [cal_full] of
     Inl e \<Rightarrow> False
   | Inr ps \<Rightarrow> ps ''LightCyanScale'' = Some 1 \<and> ps ''LightCyanTrans'' = Some (6 / 10)
       \<and> ps ''LightMagentaScale'' = Some 1 \<and> ps ''LightMagentaTrans'' = Some (6 / 10)
       \<and> card (dom ps) = 15"
proof -
  have "\<exists>ps. process fit_two dec_float [cal_full] = Inr ps"
    by (simp add: process_defs parse_cal_full fit_two_def)
  then obtain ps where run: "process fit_two dec_float [cal_full] = Inr ps" ..
  from light_scale_trans_never_written [OF run] run show ?thesis
    by simp
qed

lemma process_files_default_gamma:
  assumes c: "c \<in> {''Cyan'', ''Magenta'', ''Yellow'', ''Black''}"
  shows "DEFAULT_PARAMS (c @ ''Gamma'') = Some 1"
  using c by (auto simp: DEFAULT_PARAMS_def)

subsection \<open>The multiplicative update\<close>

text \<open>
  Claim C6.  Under the multiplicative policy, for each of the four colours: a file whose
  gamma estimate is 1.0 leaves the colour's gamma parameter as it was, a file whose
  density estimate is 1.0 leaves the colour's density parameter as it was, and after a
  run over the files \<open>f1, ..., fk\<close> the colour's gamma parameter is the left fold
  \<open>(((d * g1) * g2) ...) * gk\<close> of the files' estimates from the default \<open>d\<close>.
\<close>

theorem multiplicative_update_identity_and_fold:
  assumes c: "c \<in> {''Cyan'', ''Magenta'', ''Yellow'', ''Black''}"
  shows "(process_file cf pf ps lines = Inr ps' \<and> gamma_estimate cf pf c lines = 1
            \<longrightarrow> ps' (c @ ''Gamma'') = ps (c @ ''Gamma''))
       \<and> (process_file cf pf ps lines = Inr ps' \<and> density_estimate pf c lines = 1
            \<longrightarrow> ps' (c @ ''Density'') = ps (c @ ''Density''))
       \<and> (process cf pf cal_files = Inr psf
            \<longrightarrow> (\<exists>d. DEFAULT_PARAMS (c @ ''Gamma'') = Some d
                   \<and> psf (c @ ''Gamma'')
                       = Some (foldl (*) d (map (gamma_estimate cf pf c) cal_files))))"
proof (intro conjI impI)
  assume "process_file cf pf ps lines = Inr ps' \<and> gamma_estimate cf pf c lines = 1"
  with process_file_gamma [OF _ c, of cf pf ps lines ps']
  show "ps' (c @ ''Gamma'') = ps (c @ ''Gamma'')"
    by (cases "ps (c @ ''Gamma'')") simp_all
next
  assume "process_file cf pf ps lines = Inr ps' \<and> density_estimate pf c lines = 1"
  with process_file_density [OF _ c, of cf pf ps lines ps']
  show "ps' (c @ ''Density'') = ps (c @ ''Density'')"
    by (cases "ps (c @ ''Density'')") simp_all
next
  assume "process cf pf cal_files = Inr psf"
  then have run: "process_files cf pf DEFAULT_PARAMS cal_files = Inr psf"
    by (simp add: process_def split: if_splits)
  from process_files_gamma [OF c run] process_files_default_gamma [OF c]
  show "\<exists>d. DEFAULT_PARAMS (c @ ''Gamma'') = Some d
          \<and> psf (c @ ''Gamma'') = Some (foldl (*) d (map (gamma_estimate cf pf c) cal_files))"
    by simp
qed

theorem multiplicative_update_identity_and_fold_witness:
  "''Magenta'' \<in> {''Cyan'', ''Magenta'', ''Yellow'', ''Black''}
   \<and> gamma_estimate fit_fails dec_float ''Magenta'' cal_full = 1
   \<and> density_estimate dec_float ''Magenta'' cal_full = 1
   \<and> (case process_file fit_fails dec_float DEFAULT_PARAMS cal_full of
         Inl e \<Rightarrow> False
       | Inr ps' \<Rightarrow> ps' ''MagentaGamma'' = Some 1 \<and> ps' ''MagentaDensity'' = Some 1)
   \<and> (case process fit_two dec_float [cal_full, cal_full] of
         Inl e \<Rightarrow> False
       | Inr psf \<Rightarrow> psf ''MagentaGamma'' = Some 4)"
proof -
  have c: "''Magenta'' \<in> {''Cyan'', ''Magenta'', ''Yellow'', ''Black''}" by simp
  have g: "gamma_estimate fit_fails dec_float ''Magenta'' cal_full = 1"
    by (simp add: gamma_estimate_def parse_cal_full chan_gamma_def fit_gamma_def fit_fails_def)
  have d: "density_estimate dec_float ''Magenta'' cal_full = 1"
    by (simp add: density_estimate_def parse_cal_full chan_density_def analyze_density_def
          bool_index_def)
  have g2: "gamma_estimate fit_two dec_float ''Magenta'' cal_full = 2"
    by (simp add: gamma_estimate_def parse_cal_full chan_gamma_def fit_gamma_def fit_two_def)
  have "\<exists>ps'. process_file fit_fails dec_float DEFAULT_PARAMS cal_full = Inr ps'"
    by (simp add: process_defs parse_cal_full fit_fails_def)
  then obtain ps' where one: "process_file fit_fails dec_float DEFAULT_PARAMS cal_full = Inr ps'" ..
  have "\<exists>psf. process fit_two dec_float [cal_full, cal_full] = Inr psf"
    by (simp add: process_defs parse_cal_full fit_two_def)
  then obtain psf where run: "process fit_two dec_float [cal_full, cal_full] = Inr psf" ..
  note a = multiplicative_update_identity_and_fold
             [OF c, of fit_fails dec_float DEFAULT_PARAMS cal_full ps']
  note b = multiplicative_update_identity_and_fold
             [OF c, of fit_two dec_float _ _ _ "[cal_full, cal_full]" psf]
  from a one g d have "ps' ''MagentaGamma'' = Some 1 \<and> ps' ''MagentaDensity'' = Some 1"
    by (simp add: DEFAULT_PARAMS_def)
  moreover from b run g2 have "psf ''MagentaGamma'' = Some 4"
    by (simp add: DEFAULT_PARAMS_def)
  ultimately show ?thesis
    using c g d one run by simp
qed

subsection \<open>The density check\<close>

lemma bool_index_self: "bool_index xs (map P xs) = Inr (filter P xs)"
proof -
  have "map fst (filter snd (zip xs (map P xs))) = filter P xs"
    by (induction xs) simp_all
  then show ?thesis by (simp add: bool_index_def)
qed

lemma bool_index_other:
  "length ys = length xs \<Longrightarrow>
     bool_index ys (map P xs) = Inr (map snd (filter (\<lambda>p. P (fst p)) (zip xs ys)))"
proof -
  assume len: "length ys = length xs"
  have "length ys = length xs \<Longrightarrow>
        map fst (filter snd (zip ys (map P xs))) = map snd (filter (\<lambda>p. P (fst p)) (zip xs ys))"
    by (induction xs ys rule: list_induct2') simp_all
  with len show ?thesis by (simp add: bool_index_def)
qed

lemma length_filter_zip:
  "length ys = length xs \<Longrightarrow>
     length (filter (\<lambda>p. P (fst p)) (zip xs ys)) = length (filter P xs)"
  by (induction xs ys rule: list_induct2') simp_all

text \<open>
  Claim C4, as amended.  For an error-response curve (input levels and error values of
  one length) \<open>analyze_density\<close> returns 1.0 when fewer than two samples have an input
  level above 0.9.  Otherwise it takes the slope from the first such sample to the last
  sample of the curve and returns 0.95 exactly when that slope, with its sign, is below
  10.0 (for a zero input span: when the error difference is negative), and 1.0 otherwise.
\<close>

theorem analyze_density_signed_slope:
  assumes len: "length de_curve = length inp"
  shows "let inp_top = filter (\<lambda>v. v > 9 / 10) inp;
             de_top = map snd (filter (\<lambda>p. fst p > 9 / 10) (zip inp de_curve));
             num = last de_curve - hd de_top;
             den = last inp - hd inp_top;
             below = (if den = 0 then num < 0 else num / den < 10)
         in analyze_density inp de_curve
              = Inr (if length inp_top < 2 then 1 else if below then 95 / 100 else 1)"
proof -
  define inp_top where "inp_top = filter (\<lambda>v. v > 9 / 10) inp"
  define de_top where "de_top = map snd (filter (\<lambda>p. fst p > 9 / 10) (zip inp de_curve))"
  have a: "bool_index de_curve (map (\<lambda>v. v > 9 / 10) inp) = Inr de_top"
    unfolding de_top_def by (rule bool_index_other [OF len])
  have b: "bool_index inp (map (\<lambda>v. v > 9 / 10) inp) = Inr inp_top"
    unfolding inp_top_def by (rule bool_index_self)
  have c: "length de_top = length inp_top"
    unfolding de_top_def inp_top_def length_map
    by (rule length_filter_zip [OF len])
  have "analyze_density inp de_curve
          = Inr (if length inp_top < 2 then 1
                 else if (if last inp - hd inp_top = 0 then last de_curve - hd de_top < 0
                          else (last de_curve - hd de_top) / (last inp - hd inp_top) < 10)
                      then 95 / 100 else 1)"
    unfolding analyze_density_def Let_def a b sum.case c
    by (simp only: if_distrib [of Inr] if_True if_False split: if_splits) simp
  then show ?thesis
    unfolding Let_def inp_top_def [symmetric] de_top_def [symmetric] .
qed

theorem analyze_density_signed_slope_witness:
  "length [30, 31 :: real] = length [15 / 16, 1 :: real]
   \<and> analyze_density [15 / 16, 1] [30, 31] = Inr 1"
  using analyze_density_signed_slope [of "[30, 31]" "[15 / 16, 1]"]
  by (simp add: Let_def)

text \<open>
  Claim C4 as stated fails: with two samples above 0.9 and a slope of -16, whose magnitude
  is not below the threshold, the result is the reduction 0.95 and not 1.0.
\<close>

theorem analyze_density_magnitude_counterexample:
  "analyze_density [15 / 16, 1] [2, 1] = Inr (95 / 100)
   \<and> (15 / 16 :: real) > 9 / 10 \<and> (1 :: real) > 9 / 10
   \<and> \<not> \<bar>(1 - 2) / (1 - 15 / 16 :: real)\<bar> < 10"
  by (simp add: analyze_density_def bool_index_def)


section \<open>Properties of the parsers\<close>








section \<open>The composite gamma\<close>

subsection \<open>Evaluating the smoothing variant on the concrete file\<close>

lemmas block_defs = parse_cal_blocks_def parse_block_line_def strip_def py_isspace_def
  startswith_def curves_name_def de_name_def np_array_def split_ws_def
  dec_float_def dec_unsigned_def dec_mantissa_def dec_nat_def

lemma parse_knee: "parse_cal_blocks dec_float cal_knee = Inr
   [Some curves_name \<mapsto> NdArray
       [[249999 / 1000000, 124999 / 1000000, 124999 / 1000000, 124999 / 1000000, 124999 / 1000000],
        [499999 / 1000000, 249999 / 1000000, 249999 / 1000000, 999999 / 1000000, 249999 / 1000000],
        [96 / 100, 1 / 2, 1 / 2, 1, 1 / 2],
        [1, 1, 1, 1, 1]],
    Some de_name \<mapsto> NdArray [[0, 0], [0, 0], [0, 0], [0, 0]]]"
  by (simp add: cal_knee_def block_defs)

lemma polyfit_two_points:
  assumes "x1 \<noteq> x2"
  shows "np_polyfit1 nf [x1, x2] [Fin y1, Fin y2] None = Inr (Fin ((y1 - y2) / (x1 - x2)))"
    and "np_polyfit1 nf [x1, x2] [Fin y1, Fin y2] (Some [Fin 1, Fin 1])
           = Inr (Fin ((y1 - y2) / (x1 - x2)))"
proof -
  have det: "2 * (x1 * x1) + 2 * (x2 * x2) - (x1 + x2) * (x1 + x2) = (x1 - x2) * (x1 - x2)"
    by (simp add: algebra_simps)
  have num: "2 * (x1 * y1) + 2 * (x2 * y2) - (x1 + x2) * (y1 + y2) = (x1 - x2) * (y1 - y2)"
    by (simp add: algebra_simps)
  from assms have nz: "(x1 - x2) * (x1 - x2) \<noteq> 0" by simp
  have q: "((x1 - x2) * (y1 - y2)) / ((x1 - x2) * (x1 - x2)) = (y1 - y2) / (x1 - x2)"
    using assms by simp
  have val: "(2 * (x1 * y1) + 2 * (x2 * y2) - (x1 + x2) * (y1 + y2))
        / (2 * (x1 * x1) + 2 * (x2 * x2) - (x1 + x2) * (x1 + x2)) = (y1 - y2) / (x1 - x2)"
    by (simp only: det num q)
  have dnz: "2 * (x1 * x1) + 2 * (x2 * x2) - (x1 + x2) * (x1 + x2) \<noteq> 0"
    by (simp only: det nz not_False_eq_True)
  show "np_polyfit1 nf [x1, x2] [Fin y1, Fin y2] None = Inr (Fin ((y1 - y2) / (x1 - x2)))"
    unfolding np_polyfit1_def dot_def Let_def
    using dnz val by simp
  show "np_polyfit1 nf [x1, x2] [Fin y1, Fin y2] (Some [Fin 1, Fin 1])
           = Inr (Fin ((y1 - y2) / (x1 - x2)))"
    unfolding np_polyfit1_def dot_def Let_def
    using dnz val by simp
qed

lemma ln_quarter: "ln (1 / 4 :: real) = 2 * ln (1 / 2)"
  using ln_realpow [of "1 / 2 :: real" 2] by (simp add: power2_eq_square)

lemma ln_eighth: "ln (1 / 8 :: real) = 3 * ln (1 / 2)"
  using ln_realpow [of "1 / 2 :: real" 3] by (simp add: power3_eq_cube)

lemma ln_half_nonzero: "ln (1 / 2 :: real) \<noteq> 0"
  by simp

lemma gamma_knee_cyan:
  "estimate_gamma nf [249999 / 1000000, 499999 / 1000000, 24 / 25, 1]
     [Fin (124999 / 1000000), Fin (249999 / 1000000), Fin (1 / 2), Fin 1] (Some [Fin 1, Fin 1, Fin 1, Fin 1]) = Inr (Fin 1)"
proof -
  have "np_polyfit1 nf [ln (1 / 4), ln (1 / 2)] [Fin (ln (1 / 8)), Fin (ln (1 / 4))] (Some [Fin 1, Fin 1]) = Inr (Fin 1)"
    using ln_half_nonzero
    by (subst polyfit_two_points(2)) (simp_all add: ln_quarter ln_eighth)
  then show ?thesis
    by (simp add: estimate_gamma_def bool_index_def EPS_def)
qed

lemma gamma_knee_black:
  "estimate_gamma nf [249999 / 1000000, 499999 / 1000000, 24 / 25, 1]
     [Fin (124999 / 1000000), Fin (249999 / 1000000), Fin (1 / 2), Fin 1] None = Inr (Fin 1)"
proof -
  have "np_polyfit1 nf [ln (1 / 4), ln (1 / 2)] [Fin (ln (1 / 8)), Fin (ln (1 / 4))] None = Inr (Fin 1)"
    using ln_half_nonzero
    by (subst polyfit_two_points(1)) (simp_all add: ln_quarter ln_eighth)
  then show ?thesis
    by (simp add: estimate_gamma_def bool_index_def EPS_def)
qed

lemma gamma_knee_yellow:
  "estimate_gamma nf [249999 / 1000000, 499999 / 1000000, 24 / 25, 1]
     [Fin (124999 / 1000000), Fin (999999 / 1000000), Fin 1, Fin 1] None = Inr (Fin 3)"
proof -
  have "np_polyfit1 nf [ln (1 / 4), ln (1 / 2)] [Fin (ln (1 / 8)), Fin (ln 1)] None = Inr (Fin 3)"
    using ln_half_nonzero
    by (subst polyfit_two_points(1)) (simp_all add: ln_quarter ln_eighth)
  then show ?thesis
    by (simp add: estimate_gamma_def bool_index_def EPS_def)
qed

lemma gamma_knee_gray:
  "estimate_gamma nf [249999 / 1000000, 499999 / 1000000, 24 / 25, 1]
     [Fin (124999 / 1000000), Fin (499999 / 1000000), Fin (2 / 3), Fin 1] None = Inr (Fin 2)"
proof -
  have "np_polyfit1 nf [ln (1 / 4), ln (1 / 2)] [Fin (ln (1 / 8)), Fin (ln (1 / 2))] None = Inr (Fin 2)"
    using ln_half_nonzero
    by (subst polyfit_two_points(1)) (simp_all add: ln_quarter ln_eighth)
  then show ?thesis
    by (simp add: estimate_gamma_def bool_index_def EPS_def)
qed

lemmas main_defs = main_def main_file_def get_block_def block_column_def column_def width_def
  de_weights_def light_channel_def dark_channel_def composite_channel_def gray_curve_def
  smooth_into_def main_defaults_def estimate_transition_def np_gradient_def np_argmax_def
  item_def estimate_light_scale_def estimate_light_value_def np_argmin_def
  estimate_density_def last_elem_def np_clip_def py_max_def EPS_def bool_index_def np_mean_def
  np_divide_def finite_result_def curves_name_def de_name_def

lemmas gamma_knee = gamma_knee_cyan gamma_knee_black gamma_knee_yellow gamma_knee_gray

text \<open>
  On the straight curves of \<open>cal_linear\<close> the second differences are all zero and the
  transition estimate is the first input level; no sample lies below it, so the estimate
  of the light-ink scale is \<open>nan\<close>.  The run goes on and \<open>nan\<close> is the scale that it
  reports.  The weight \<open>inf\<close> of the last sample does no harm, as that sample is outside
  the range of the gamma fit.
\<close>

lemma parse_linear: "parse_cal_blocks dec_float cal_linear = Inr
   [Some curves_name \<mapsto> NdArray
       [[249999 / 1000000, 1 / 8, 1 / 8, 1 / 8, 1 / 8],
        [499999 / 1000000, 1 / 4, 1 / 4, 1 / 4, 1 / 4],
        [96 / 100, 3 / 8, 3 / 8, 3 / 8, 3 / 8],
        [1, 1 / 2, 1 / 2, 1 / 2, 1 / 2]],
    Some de_name \<mapsto> NdArray [[0, 0], [0, 0], [0, 0], [0, - 1]]]"
  by (simp add: cal_linear_def block_defs)

lemma gamma_linear:
  "\<exists>g. estimate_gamma nf [249999 / 1000000, 499999 / 1000000, 24 / 25, 1]
          [Fin (1 / 8), Fin (1 / 4), Fin (3 / 8), Fin (1 / 2)]
          (Some [Fin 1, Fin 1, Fin 1, PosInf]) = Inr (Fin g)
      \<and> estimate_gamma nf [249999 / 1000000, 499999 / 1000000, 24 / 25, 1]
          [Fin (1 / 8), Fin (1 / 4), Fin (3 / 8), Fin (1 / 2)] None = Inr (Fin g)"
proof -
  have ne: "ln (1 / 4 :: real) \<noteq> ln (1 / 2)" by simp
  show ?thesis
    by (simp add: estimate_gamma_def bool_index_def EPS_def polyfit_two_points [OF ne])
qed

lemma smooth_nan_estimate: "smooth prev NaN alpha = NaN"
  by (cases alpha) (simp_all add: smooth_def)

lemma main_file_linear:
  "\<exists>qs'. main_file nf dec_float (Fin (4 / 10)) main_defaults cal_linear = Inr qs'
      \<and> qs' ''LightCyanScale'' = Some NaN \<and> qs' ''LightMagentaScale'' = Some NaN"
proof -
  from gamma_linear [of nf] obtain g where
    "estimate_gamma nf [249999 / 1000000, 499999 / 1000000, 24 / 25, 1]
          [Fin (1 / 8), Fin (1 / 4), Fin (3 / 8), Fin (1 / 2)]
          (Some [Fin 1, Fin 1, Fin 1, PosInf]) = Inr (Fin g)"
    "estimate_gamma nf [249999 / 1000000, 499999 / 1000000, 24 / 25, 1]
          [Fin (1 / 8), Fin (1 / 4), Fin (3 / 8), Fin (1 / 2)] None = Inr (Fin g)"
    by blast
  then show ?thesis
    by (simp add: main_defs parse_linear [unfolded curves_name_def de_name_def]
        smooth_nan_estimate)
qed

text \<open>
  Claim C5 as stated fails in the smoothing variant.  On the file \<open>cal_knee\<close>, with
  \<open>alpha = 1\<close> (the parameters printed are then the estimates of the file), the
  per-channel gammas are 1 (Cyan), 1 (Magenta) and 3 (Yellow), whose mean is 5/3; the
  composite gamma is 2, the gamma of the averaged curve.
\<close>

theorem composite_gamma_not_mean_counterexample:
  "reported (main nf_raises dec_float (Fin 1) [cal_knee]) ''CyanGamma'' = Some (Fin 1)
   \<and> reported (main nf_raises dec_float (Fin 1) [cal_knee]) ''MagentaGamma'' = Some (Fin 1)
   \<and> reported (main nf_raises dec_float (Fin 1) [cal_knee]) ''YellowGamma'' = Some (Fin 3)
   \<and> reported (main nf_raises dec_float (Fin 1) [cal_knee]) ''CompositeGamma'' = Some (Fin 2)
   \<and> Fin 2 \<noteq> Fin ((1 + 1 + 3) / 3)"
proof -
  have "\<exists>ps. main nf_raises dec_float (Fin 1) [cal_knee] = Inr ps
          \<and> ps ''CyanGamma'' = Some (smooth (Fin 1) (Fin 1) (Fin 1))
          \<and> ps ''MagentaGamma'' = Some (smooth (Fin 1) (Fin 1) (Fin 1))
          \<and> ps ''YellowGamma'' = Some (smooth (Fin 1) (Fin 3) (Fin 1))
          \<and> ps ''CompositeGamma'' = Some (smooth (Fin 1) (Fin 2) (Fin 1))"
    by (simp add: main_defs parse_knee [unfolded curves_name_def de_name_def] gamma_knee)
  then show ?thesis
    by (auto simp: reported_def smooth_alpha_one is_float_small)
qed

subsection \<open>What the steps of the smoothing variant write\<close>

lemma smooth_into_Inr:
  "smooth_into ps k est alpha = Inr ps' \<Longrightarrow>
     \<exists>prev new. ps k = Some prev \<and> est = Inr new \<and> ps' = ps(k \<mapsto> smooth prev new alpha)"
  by (auto simp: smooth_into_def split: option.splits sum.splits)

lemma light_key_ne: "length x = length y \<Longrightarrow> ''Light'' @ n @ x \<noteq> n @ y"
proof
  assume "length x = length y" and "''Light'' @ n @ x = n @ y"
  then have "length (''Light'' @ n @ x) = length (n @ y)" by simp
  with \<open>length x = length y\<close> show False by simp
qed

lemma light_channel_gamma:
  assumes "light_channel nf alpha I' w curves i name ps = Inr ps'"
  shows "\<exists>C g prev. block_column curves i = Inr C
           \<and> estimate_gamma nf I' (map Fin C) (Some w) = Inr g
           \<and> ps (name @ ''Gamma'') = Some prev
           \<and> ps' (name @ ''Gamma'') = Some (smooth prev g alpha)"
proof -
  from assms obtain C T ps1 ps2 ps3 ps4 where
    c: "block_column curves i = Inr C"
    and s1: "smooth_into ps (''Light'' @ name @ ''Trans'') (Inr (Fin T)) alpha = Inr ps1"
    and s2: "smooth_into ps1 (''Light'' @ name @ ''Scale'') (estimate_light_scale I' C T) alpha = Inr ps2"
    and s3: "smooth_into ps2 (''Light'' @ name @ ''Value'') (estimate_light_value I' C T) alpha = Inr ps3"
    and s4: "smooth_into ps3 (name @ ''Gamma'') (estimate_gamma nf I' (map Fin C) (Some w)) alpha = Inr ps4"
    and s5: "smooth_into ps4 (name @ ''Density'') (finite_result (estimate_density C)) alpha = Inr ps'"
    unfolding light_channel_def by (auto split: sum.splits)
  have ne: "''Light'' @ name @ ''Trans'' \<noteq> name @ ''Gamma''"
    "''Light'' @ name @ ''Scale'' \<noteq> name @ ''Gamma''"
    "''Light'' @ name @ ''Value'' \<noteq> name @ ''Gamma''"
    by (rule light_key_ne, simp)+
  from smooth_into_Inr [OF s1] ne have a: "ps1 (name @ ''Gamma'') = ps (name @ ''Gamma'')"
    by (auto simp del: append.simps)
  from smooth_into_Inr [OF s2] ne have b: "ps2 (name @ ''Gamma'') = ps1 (name @ ''Gamma'')"
    by (auto simp del: append.simps)
  from smooth_into_Inr [OF s3] ne have d: "ps3 (name @ ''Gamma'') = ps2 (name @ ''Gamma'')"
    by (auto simp del: append.simps)
  from smooth_into_Inr [OF s4] obtain prev g where
    e: "ps3 (name @ ''Gamma'') = Some prev" "estimate_gamma nf I' (map Fin C) (Some w) = Inr g"
      "ps4 (name @ ''Gamma'') = Some (smooth prev g alpha)"
    by auto
  from smooth_into_Inr [OF s5] have f: "ps' (name @ ''Gamma'') = ps4 (name @ ''Gamma'')"
    by auto
  from a b d e(1) have "ps (name @ ''Gamma'') = Some prev" by simp
  moreover from f e(3) have "ps' (name @ ''Gamma'') = Some (smooth prev g alpha)" by simp
  ultimately show ?thesis using c e(2) by blast
qed

lemma light_channel_frame:
  assumes "light_channel nf alpha I' w curves i name ps = Inr ps'"
    and "k \<notin> {''Light'' @ name @ ''Trans'', ''Light'' @ name @ ''Scale'',
              ''Light'' @ name @ ''Value'', name @ ''Gamma'', name @ ''Density''}"
  shows "ps' k = ps k"
proof -
  from assms(1) obtain C T ps1 ps2 ps3 ps4 where
    s1: "smooth_into ps (''Light'' @ name @ ''Trans'') (Inr (Fin T)) alpha = Inr ps1"
    and s2: "smooth_into ps1 (''Light'' @ name @ ''Scale'') (estimate_light_scale I' C T) alpha = Inr ps2"
    and s3: "smooth_into ps2 (''Light'' @ name @ ''Value'') (estimate_light_value I' C T) alpha = Inr ps3"
    and s4: "smooth_into ps3 (name @ ''Gamma'') (estimate_gamma nf I' (map Fin C) (Some w)) alpha = Inr ps4"
    and s5: "smooth_into ps4 (name @ ''Density'') (finite_result (estimate_density C)) alpha = Inr ps'"
    unfolding light_channel_def by (auto split: sum.splits)
  from smooth_into_Inr [OF s1] assms(2) have "ps1 k = ps k" by auto
  moreover from smooth_into_Inr [OF s2] assms(2) have "ps2 k = ps1 k" by auto
  moreover from smooth_into_Inr [OF s3] assms(2) have "ps3 k = ps2 k" by auto
  moreover from smooth_into_Inr [OF s4] assms(2) have "ps4 k = ps3 k" by auto
  moreover from smooth_into_Inr [OF s5] assms(2) have "ps' k = ps4 k" by auto
  ultimately show ?thesis by simp
qed

lemma dark_channel_gamma:
  assumes "dark_channel nf alpha I' curves i name ps = Inr ps'"
  shows "\<exists>Y g prev. block_column curves i = Inr Y \<and> estimate_gamma nf I' (map Fin Y) None = Inr g
           \<and> ps (name @ ''Gamma'') = Some prev
           \<and> ps' (name @ ''Gamma'') = Some (smooth prev g alpha)"
proof -
  from assms obtain Y ps1 where
    c: "block_column curves i = Inr Y"
    and s1: "smooth_into ps (name @ ''Gamma'') (estimate_gamma nf I' (map Fin Y) None) alpha = Inr ps1"
    and s2: "smooth_into ps1 (name @ ''Density'') (finite_result (estimate_density Y)) alpha = Inr ps'"
    unfolding dark_channel_def by (auto split: sum.splits)
  from smooth_into_Inr [OF s1] obtain prev g where
    e: "ps (name @ ''Gamma'') = Some prev" "estimate_gamma nf I' (map Fin Y) None = Inr g"
      "ps1 (name @ ''Gamma'') = Some (smooth prev g alpha)"
    by auto
  from smooth_into_Inr [OF s2] have f: "ps' (name @ ''Gamma'') = ps1 (name @ ''Gamma'')"
    by auto
  from f e(3) have "ps' (name @ ''Gamma'') = Some (smooth prev g alpha)" by simp
  with e(1,2) c show ?thesis by blast
qed

lemma dark_channel_frame:
  assumes "dark_channel nf alpha I' curves i name ps = Inr ps'"
    and "k \<notin> {name @ ''Gamma'', name @ ''Density''}"
  shows "ps' k = ps k"
proof -
  from assms(1) obtain Y ps1 where
    s1: "smooth_into ps (name @ ''Gamma'') (estimate_gamma nf I' (map Fin Y) None) alpha = Inr ps1"
    and s2: "smooth_into ps1 (name @ ''Density'') (finite_result (estimate_density Y)) alpha = Inr ps'"
    unfolding dark_channel_def by (auto split: sum.splits)
  from smooth_into_Inr [OF s1] assms(2) have "ps1 k = ps k" by auto
  moreover from smooth_into_Inr [OF s2] assms(2) have "ps' k = ps1 k" by auto
  ultimately show ?thesis by simp
qed

lemma composite_channel_Inr:
  assumes "composite_channel nf alpha I' curves ps = Inr ps'"
  shows "\<exists>gray g prev. gray_curve curves = Inr gray \<and> estimate_gamma nf I' gray None = Inr g
           \<and> ps ''CompositeGamma'' = Some prev
           \<and> ps' = ps(''CompositeGamma'' \<mapsto> smooth prev g alpha)"
  using assms unfolding composite_channel_def
  by (auto split: sum.splits dest!: smooth_into_Inr)

lemma main_file_steps:
  assumes "main_file nf pf alpha ps lines = Inr ps'"
  obtains bs curves de I' de1 ps1 ps2 ps3 ps4 where
    "parse_cal_blocks pf lines = Inr bs"
    "get_block bs curves_name = Inr curves"
    "get_block bs de_name = Inr de"
    "block_column curves 0 = Inr I'"
    "block_column de 1 = Inr de1"
    "light_channel nf alpha I' (de_weights de1) curves 1 ''Cyan'' ps = Inr ps1"
    "light_channel nf alpha I' (de_weights de1) curves 2 ''Magenta'' ps1 = Inr ps2"
    "dark_channel nf alpha I' curves 3 ''Yellow'' ps2 = Inr ps3"
    "dark_channel nf alpha I' curves 4 ''Black'' ps3 = Inr ps4"
    "composite_channel nf alpha I' curves ps4 = Inr ps'"
  using assms unfolding main_file_def
  by (auto split: sum.splits)

lemma main_file_composite:
  assumes run: "main_file nf pf alpha ps lines = Inr ps'"
  shows "\<exists>bs curves I' gray g prev.
           parse_cal_blocks pf lines = Inr bs \<and> get_block bs curves_name = Inr curves
         \<and> block_column curves 0 = Inr I' \<and> gray_curve curves = Inr gray
         \<and> estimate_gamma nf I' gray None = Inr g
         \<and> ps ''CompositeGamma'' = Some prev
         \<and> ps' ''CompositeGamma'' = Some (smooth prev g alpha)"
proof -
  from run obtain bs curves de I' de1 ps1 ps2 ps3 ps4 where
    p: "parse_cal_blocks pf lines = Inr bs" "get_block bs curves_name = Inr curves"
      "block_column curves 0 = Inr I'"
    and c: "light_channel nf alpha I' (de_weights de1) curves 1 ''Cyan'' ps = Inr ps1"
    and m: "light_channel nf alpha I' (de_weights de1) curves 2 ''Magenta'' ps1 = Inr ps2"
    and y: "dark_channel nf alpha I' curves 3 ''Yellow'' ps2 = Inr ps3"
    and k: "dark_channel nf alpha I' curves 4 ''Black'' ps3 = Inr ps4"
    and g: "composite_channel nf alpha I' curves ps4 = Inr ps'"
    by (rule main_file_steps)
  have "ps1 ''CompositeGamma'' = ps ''CompositeGamma''"
    by (rule light_channel_frame [OF c]) simp
  moreover have "ps2 ''CompositeGamma'' = ps1 ''CompositeGamma''"
    by (rule light_channel_frame [OF m]) simp
  moreover have "ps3 ''CompositeGamma'' = ps2 ''CompositeGamma''"
    by (rule dark_channel_frame [OF y]) simp
  moreover have "ps4 ''CompositeGamma'' = ps3 ''CompositeGamma''"
    by (rule dark_channel_frame [OF k]) simp
  ultimately have eq: "ps4 ''CompositeGamma'' = ps ''CompositeGamma''" by simp
  from composite_channel_Inr [OF g] obtain gray gv prev where
    r: "gray_curve curves = Inr gray" "estimate_gamma nf I' gray None = Inr gv"
      "ps4 ''CompositeGamma'' = Some prev"
      "ps' = ps4(''CompositeGamma'' \<mapsto> smooth prev gv alpha)"
    by blast
  from r(3) eq have "ps ''CompositeGamma'' = Some prev" by simp
  moreover from r(4) have "ps' ''CompositeGamma'' = Some (smooth prev gv alpha)" by simp
  ultimately show ?thesis using p r(1,2) by blast
qed

lemma main_file_yellow:
  assumes run: "main_file nf pf alpha ps lines = Inr ps'"
  shows "\<exists>bs curves I' Y g prev.
           parse_cal_blocks pf lines = Inr bs \<and> get_block bs curves_name = Inr curves
         \<and> block_column curves 0 = Inr I' \<and> block_column curves 3 = Inr Y
         \<and> estimate_gamma nf I' (map Fin Y) None = Inr g
         \<and> ps ''YellowGamma'' = Some prev
         \<and> ps' ''YellowGamma'' = Some (smooth prev g alpha)"
proof -
  from run obtain bs curves de I' de1 ps1 ps2 ps3 ps4 where
    p: "parse_cal_blocks pf lines = Inr bs" "get_block bs curves_name = Inr curves"
      "block_column curves 0 = Inr I'"
    and c: "light_channel nf alpha I' (de_weights de1) curves 1 ''Cyan'' ps = Inr ps1"
    and m: "light_channel nf alpha I' (de_weights de1) curves 2 ''Magenta'' ps1 = Inr ps2"
    and y: "dark_channel nf alpha I' curves 3 ''Yellow'' ps2 = Inr ps3"
    and k: "dark_channel nf alpha I' curves 4 ''Black'' ps3 = Inr ps4"
    and g: "composite_channel nf alpha I' curves ps4 = Inr ps'"
    by (rule main_file_steps)
  have "ps1 ''YellowGamma'' = ps ''YellowGamma''"
    by (rule light_channel_frame [OF c]) simp
  moreover have "ps2 ''YellowGamma'' = ps1 ''YellowGamma''"
    by (rule light_channel_frame [OF m]) simp
  moreover have "ps4 ''YellowGamma'' = ps3 ''YellowGamma''"
    by (rule dark_channel_frame [OF k]) simp
  moreover have "ps' ''YellowGamma'' = ps4 ''YellowGamma''"
    using composite_channel_Inr [OF g] by auto
  ultimately have eq: "ps2 ''YellowGamma'' = ps ''YellowGamma''"
    and eq': "ps' ''YellowGamma'' = ps3 ''YellowGamma''" by simp_all
  from dark_channel_gamma [OF y] obtain Y gv prev where
    r: "block_column curves 3 = Inr Y" "estimate_gamma nf I' (map Fin Y) None = Inr gv"
      "ps2 (''Yellow'' @ ''Gamma'') = Some prev"
      "ps3 (''Yellow'' @ ''Gamma'') = Some (smooth prev gv alpha)"
    by blast
  from r(3) eq have "ps ''YellowGamma'' = Some prev" by simp
  moreover from r(4) eq' have "ps' ''YellowGamma'' = Some (smooth prev gv alpha)" by simp
  ultimately show ?thesis using p r(1,2) by blast
qed


lemma main_file_cyan:
  assumes run: "main_file nf pf alpha ps lines = Inr ps'"
  shows "\<exists>bs curves de I' de1 w C g prev.
           parse_cal_blocks pf lines = Inr bs \<and> get_block bs curves_name = Inr curves
         \<and> get_block bs de_name = Inr de \<and> block_column curves 0 = Inr I'
         \<and> block_column de 1 = Inr de1 \<and> de_weights de1 = w
         \<and> block_column curves 1 = Inr C
         \<and> estimate_gamma nf I' (map Fin C) (Some w) = Inr g
         \<and> ps ''CyanGamma'' = Some prev
         \<and> ps' ''CyanGamma'' = Some (smooth prev g alpha)"
proof -
  from run obtain bs curves de I' de1 ps1 ps2 ps3 ps4 where
    p: "parse_cal_blocks pf lines = Inr bs" "get_block bs curves_name = Inr curves"
      "get_block bs de_name = Inr de" "block_column curves 0 = Inr I'"
      "block_column de 1 = Inr de1"
    and c: "light_channel nf alpha I' (de_weights de1) curves 1 ''Cyan'' ps = Inr ps1"
    and m: "light_channel nf alpha I' (de_weights de1) curves 2 ''Magenta'' ps1 = Inr ps2"
    and y: "dark_channel nf alpha I' curves 3 ''Yellow'' ps2 = Inr ps3"
    and k: "dark_channel nf alpha I' curves 4 ''Black'' ps3 = Inr ps4"
    and g: "composite_channel nf alpha I' curves ps4 = Inr ps'"
    by (rule main_file_steps)
  have "ps2 ''CyanGamma'' = ps1 ''CyanGamma''"
    by (rule light_channel_frame [OF m]) simp
  moreover have "ps3 ''CyanGamma'' = ps2 ''CyanGamma''"
    by (rule dark_channel_frame [OF y]) simp
  moreover have "ps4 ''CyanGamma'' = ps3 ''CyanGamma''"
    by (rule dark_channel_frame [OF k]) simp
  moreover have "ps' ''CyanGamma'' = ps4 ''CyanGamma''"
    using composite_channel_Inr [OF g] by auto
  ultimately have eq: "ps' ''CyanGamma'' = ps1 ''CyanGamma''" by simp
  from light_channel_gamma [OF c] obtain C gv prev where
    r: "block_column curves 1 = Inr C" "estimate_gamma nf I' (map Fin C) (Some (de_weights de1)) = Inr gv"
      "ps (''Cyan'' @ ''Gamma'') = Some prev"
      "ps1 (''Cyan'' @ ''Gamma'') = Some (smooth prev gv alpha)"
    by blast
  from r(3) have "ps ''CyanGamma'' = Some prev" by simp
  moreover from r(4) eq have "ps' ''CyanGamma'' = Some (smooth prev gv alpha)" by simp
  ultimately show ?thesis using p r(1,2) by blast
qed

lemma main_file_magenta:
  assumes run: "main_file nf pf alpha ps lines = Inr ps'"
  shows "\<exists>bs curves de I' de1 w M g prev.
           parse_cal_blocks pf lines = Inr bs \<and> get_block bs curves_name = Inr curves
         \<and> get_block bs de_name = Inr de \<and> block_column curves 0 = Inr I'
         \<and> block_column de 1 = Inr de1 \<and> de_weights de1 = w
         \<and> block_column curves 2 = Inr M
         \<and> estimate_gamma nf I' (map Fin M) (Some w) = Inr g
         \<and> ps ''MagentaGamma'' = Some prev
         \<and> ps' ''MagentaGamma'' = Some (smooth prev g alpha)"
proof -
  from run obtain bs curves de I' de1 ps1 ps2 ps3 ps4 where
    p: "parse_cal_blocks pf lines = Inr bs" "get_block bs curves_name = Inr curves"
      "get_block bs de_name = Inr de" "block_column curves 0 = Inr I'"
      "block_column de 1 = Inr de1"
    and c: "light_channel nf alpha I' (de_weights de1) curves 1 ''Cyan'' ps = Inr ps1"
    and m: "light_channel nf alpha I' (de_weights de1) curves 2 ''Magenta'' ps1 = Inr ps2"
    and y: "dark_channel nf alpha I' curves 3 ''Yellow'' ps2 = Inr ps3"
    and k: "dark_channel nf alpha I' curves 4 ''Black'' ps3 = Inr ps4"
    and g: "composite_channel nf alpha I' curves ps4 = Inr ps'"
    by (rule main_file_steps)
  have e0: "ps1 ''MagentaGamma'' = ps ''MagentaGamma''"
    by (rule light_channel_frame [OF c]) simp
  have "ps3 ''MagentaGamma'' = ps2 ''MagentaGamma''"
    by (rule dark_channel_frame [OF y]) simp
  moreover have "ps4 ''MagentaGamma'' = ps3 ''MagentaGamma''"
    by (rule dark_channel_frame [OF k]) simp
  moreover have "ps' ''MagentaGamma'' = ps4 ''MagentaGamma''"
    using composite_channel_Inr [OF g] by auto
  ultimately have eq: "ps' ''MagentaGamma'' = ps2 ''MagentaGamma''" by simp
  from light_channel_gamma [OF m] obtain M gv prev where
    r: "block_column curves 2 = Inr M" "estimate_gamma nf I' (map Fin M) (Some (de_weights de1)) = Inr gv"
      "ps1 (''Magenta'' @ ''Gamma'') = Some prev"
      "ps2 (''Magenta'' @ ''Gamma'') = Some (smooth prev gv alpha)"
    by blast
  from r(3) e0 have "ps ''MagentaGamma'' = Some prev" by simp
  moreover from r(4) eq have "ps' ''MagentaGamma'' = Some (smooth prev gv alpha)" by simp
  ultimately show ?thesis using p r(1,2) by blast
qed

text \<open>
  Claim C5, as amended.  In the multiplicative variant, for every file that is processed
  to the end, \<open>CompositeGamma\<close> is multiplied by the arithmetic mean of the file's Cyan,
  Magenta and Yellow gamma estimates, each fitted on its own curve: multiplication by the
  estimate is also the rule for the three per-channel gammas.  In the smoothing variant,
  for every file that is processed to the end (a file on which an estimate is \<open>nan\<close> or a
  weight is \<open>inf\<close> is processed to the end when nothing raises), the composite estimate
  is instead the gamma fitted on the curve \<open>gray\<close>, the mean of the three chromatic
  outputs of each sample, and it is folded into \<open>CompositeGamma\<close> with \<open>smooth\<close>, as the
  three per-channel estimates are folded into their parameters.
\<close>

theorem composite_gamma_update:
  "(process_file cf pf ps lines = Inr ps' \<longrightarrow>
      (\<exists>v. ps ''CompositeGamma'' = Some v
         \<and> ps' ''CompositeGamma'' =
             Some (v * ((gamma_estimate cf pf ''Cyan'' lines
                         + gamma_estimate cf pf ''Magenta'' lines
                         + gamma_estimate cf pf ''Yellow'' lines) / 3)))
      \<and> (\<forall>c \<in> {''Cyan'', ''Magenta'', ''Yellow''}.
            ps' (c @ ''Gamma'') =
              map_option (\<lambda>v. v * gamma_estimate cf pf c lines) (ps (c @ ''Gamma''))))
   \<and> (main_file nf qf alpha qs qlines = Inr qs' \<longrightarrow>
      (\<exists>bs curves de I' de1 w C M Y gray gc gm gy gg pc pm py pg.
           parse_cal_blocks qf qlines = Inr bs \<and> get_block bs curves_name = Inr curves
         \<and> get_block bs de_name = Inr de \<and> block_column curves 0 = Inr I'
         \<and> block_column de 1 = Inr de1 \<and> de_weights de1 = w
         \<and> block_column curves 1 = Inr C \<and> block_column curves 2 = Inr M
         \<and> block_column curves 3 = Inr Y \<and> gray_curve curves = Inr gray
         \<and> estimate_gamma nf I' (map Fin C) (Some w) = Inr gc
         \<and> estimate_gamma nf I' (map Fin M) (Some w) = Inr gm
         \<and> estimate_gamma nf I' (map Fin Y) None = Inr gy
         \<and> estimate_gamma nf I' gray None = Inr gg
         \<and> qs ''CyanGamma'' = Some pc \<and> qs' ''CyanGamma'' = Some (smooth pc gc alpha)
         \<and> qs ''MagentaGamma'' = Some pm \<and> qs' ''MagentaGamma'' = Some (smooth pm gm alpha)
         \<and> qs ''YellowGamma'' = Some py \<and> qs' ''YellowGamma'' = Some (smooth py gy alpha)
         \<and> qs ''CompositeGamma'' = Some pg
         \<and> qs' ''CompositeGamma'' = Some (smooth pg gg alpha)))"
proof (intro conjI impI)
  assume run: "process_file cf pf ps lines = Inr ps'"
  from process_file_composite [OF run]
  show "\<exists>v. ps ''CompositeGamma'' = Some v
         \<and> ps' ''CompositeGamma'' =
             Some (v * ((gamma_estimate cf pf ''Cyan'' lines
                         + gamma_estimate cf pf ''Magenta'' lines
                         + gamma_estimate cf pf ''Yellow'' lines) / 3))" .
  show "\<forall>c \<in> {''Cyan'', ''Magenta'', ''Yellow''}.
            ps' (c @ ''Gamma'') =
              map_option (\<lambda>v. v * gamma_estimate cf pf c lines) (ps (c @ ''Gamma''))"
  proof
    fix c :: string
    assume "c \<in> {''Cyan'', ''Magenta'', ''Yellow''}"
    then have "c \<in> {''Cyan'', ''Magenta'', ''Yellow'', ''Black''}" by blast
    from process_file_gamma [OF run this]
    show "ps' (c @ ''Gamma'') =
              map_option (\<lambda>v. v * gamma_estimate cf pf c lines) (ps (c @ ''Gamma''))" .
  qed
next
  assume run: "main_file nf qf alpha qs qlines = Inr qs'"
  from main_file_cyan [OF run] obtain bs curves de I' de1 w C gc pc where
    c: "parse_cal_blocks qf qlines = Inr bs" "get_block bs curves_name = Inr curves"
       "get_block bs de_name = Inr de" "block_column curves 0 = Inr I'"
       "block_column de 1 = Inr de1" "de_weights de1 = w"
       "block_column curves 1 = Inr C" "estimate_gamma nf I' (map Fin C) (Some w) = Inr gc"
       "qs ''CyanGamma'' = Some pc" "qs' ''CyanGamma'' = Some (smooth pc gc alpha)"
    by blast
  from main_file_magenta [OF run] c(1-6) obtain M gm pm where
    m: "block_column curves 2 = Inr M" "estimate_gamma nf I' (map Fin M) (Some w) = Inr gm"
       "qs ''MagentaGamma'' = Some pm" "qs' ''MagentaGamma'' = Some (smooth pm gm alpha)"
    by auto
  from main_file_yellow [OF run] c(1-6) obtain Y gy py where
    y: "block_column curves 3 = Inr Y" "estimate_gamma nf I' (map Fin Y) None = Inr gy"
       "qs ''YellowGamma'' = Some py" "qs' ''YellowGamma'' = Some (smooth py gy alpha)"
    by auto
  from main_file_composite [OF run] c(1-6) obtain gray gg pg where
    g: "gray_curve curves = Inr gray" "estimate_gamma nf I' gray None = Inr gg"
       "qs ''CompositeGamma'' = Some pg" "qs' ''CompositeGamma'' = Some (smooth pg gg alpha)"
    by auto
  from c m y g
  show "\<exists>bs curves de I' de1 w C M Y gray gc gm gy gg pc pm py pg.
           parse_cal_blocks qf qlines = Inr bs \<and> get_block bs curves_name = Inr curves
         \<and> get_block bs de_name = Inr de \<and> block_column curves 0 = Inr I'
         \<and> block_column de 1 = Inr de1 \<and> de_weights de1 = w
         \<and> block_column curves 1 = Inr C \<and> block_column curves 2 = Inr M
         \<and> block_column curves 3 = Inr Y \<and> gray_curve curves = Inr gray
         \<and> estimate_gamma nf I' (map Fin C) (Some w) = Inr gc
         \<and> estimate_gamma nf I' (map Fin M) (Some w) = Inr gm
         \<and> estimate_gamma nf I' (map Fin Y) None = Inr gy
         \<and> estimate_gamma nf I' gray None = Inr gg
         \<and> qs ''CyanGamma'' = Some pc \<and> qs' ''CyanGamma'' = Some (smooth pc gc alpha)
         \<and> qs ''MagentaGamma'' = Some pm \<and> qs' ''MagentaGamma'' = Some (smooth pm gm alpha)
         \<and> qs ''YellowGamma'' = Some py \<and> qs' ''YellowGamma'' = Some (smooth py gy alpha)
         \<and> qs ''CompositeGamma'' = Some pg
         \<and> qs' ''CompositeGamma'' = Some (smooth pg gg alpha)"
    by blast
qed

theorem composite_gamma_update_witness:
  "(case process_file fit_two dec_float DEFAULT_PARAMS cal_full of
      Inl e \<Rightarrow> False
    | Inr ps' \<Rightarrow> ps' ''CompositeGamma'' = Some 2 \<and> ps' ''YellowGamma'' = Some 2)
   \<and> (case main_file nf_raises dec_float (Fin (4 / 10)) main_defaults cal_linear of
        Inl e \<Rightarrow> False
      | Inr qs' \<Rightarrow>
          qs' ''LightCyanScale'' = Some NaN
        \<and> (\<exists>g. estimate_gamma nf_raises [249999 / 1000000, 499999 / 1000000, 24 / 25, 1]
                  [Fin (1 / 8), Fin (1 / 4), Fin (3 / 8), Fin (1 / 2)] None = Inr g
              \<and> qs' ''CompositeGamma'' = Some (smooth (Fin 1) g (Fin (4 / 10)))
              \<and> qs' ''YellowGamma'' = Some (smooth (Fin 1) g (Fin (4 / 10)))))"
proof -
  have "\<exists>ps'. process_file fit_two dec_float DEFAULT_PARAMS cal_full = Inr ps'"
    by (simp add: process_defs parse_cal_full fit_two_def)
  then obtain ps' where one: "process_file fit_two dec_float DEFAULT_PARAMS cal_full = Inr ps'" ..
  from main_file_linear [of nf_raises] obtain qs' where
    two: "main_file nf_raises dec_float (Fin (4 / 10)) main_defaults cal_linear = Inr qs'"
    and nan: "qs' ''LightCyanScale'' = Some NaN"
    by blast
  note inst = composite_gamma_update [where cf = fit_two and pf = dec_float
      and ps = DEFAULT_PARAMS and lines = cal_full and ps' = ps' and nf = nf_raises
      and qf = dec_float and alpha = "Fin (4 / 10)" and qs = main_defaults and qlines = cal_linear
      and qs' = qs']
  have g: "gamma_estimate fit_two dec_float c cal_full = 2"
    if "c \<in> {''Cyan'', ''Magenta'', ''Yellow''}" for c
    using that
    by (auto simp: gamma_estimate_def parse_cal_full chan_gamma_def fit_gamma_def fit_two_def)
  from inst one g have a: "ps' ''CompositeGamma'' = Some 2 \<and> ps' ''YellowGamma'' = Some 2"
    by (simp add: DEFAULT_PARAMS_def)
  from inst two obtain curves I' Y gray gy gg py pg where
    b: "get_block [Some curves_name \<mapsto> NdArray
       [[249999 / 1000000, 1 / 8, 1 / 8, 1 / 8, 1 / 8],
        [499999 / 1000000, 1 / 4, 1 / 4, 1 / 4, 1 / 4],
        [96 / 100, 3 / 8, 3 / 8, 3 / 8, 3 / 8],
        [1, 1 / 2, 1 / 2, 1 / 2, 1 / 2]],
    Some de_name \<mapsto> NdArray [[0, 0], [0, 0], [0, 0], [0, - 1]]] curves_name = Inr curves"
      "block_column curves 0 = Inr I'" "block_column curves 3 = Inr Y"
      "gray_curve curves = Inr gray"
      "estimate_gamma nf_raises I' (map Fin Y) None = Inr gy"
      "estimate_gamma nf_raises I' gray None = Inr gg"
      "main_defaults ''YellowGamma'' = Some py"
      "qs' ''YellowGamma'' = Some (smooth py gy (Fin (4 / 10)))"
      "main_defaults ''CompositeGamma'' = Some pg"
      "qs' ''CompositeGamma'' = Some (smooth pg gg (Fin (4 / 10)))"
    unfolding parse_linear by auto
  from b(1) have cv: "curves = NdArray
       [[249999 / 1000000, 1 / 8, 1 / 8, 1 / 8, 1 / 8],
        [499999 / 1000000, 1 / 4, 1 / 4, 1 / 4, 1 / 4],
        [96 / 100, 3 / 8, 3 / 8, 3 / 8, 3 / 8],
        [1, 1 / 2, 1 / 2, 1 / 2, 1 / 2]]"
    by (simp add: get_block_def curves_name_def de_name_def)
  from b(2,3,4) have vals: "I' = [249999 / 1000000, 499999 / 1000000, 24 / 25, 1]"
    "map Fin Y = [Fin (1 / 8), Fin (1 / 4), Fin (3 / 8), Fin (1 / 2)]"
    "gray = [Fin (1 / 8), Fin (1 / 4), Fin (3 / 8), Fin (1 / 2)]"
    unfolding cv by (auto simp: block_column_def column_def width_def gray_curve_def np_mean_def)
  from b(5,6) have same: "gy = gg"
    and gg: "estimate_gamma nf_raises [249999 / 1000000, 499999 / 1000000, 24 / 25, 1]
                  [Fin (1 / 8), Fin (1 / 4), Fin (3 / 8), Fin (1 / 2)] None = Inr gg"
    unfolding vals by simp_all
  from b(7-10) same have "qs' ''CompositeGamma'' = Some (smooth (Fin 1) gg (Fin (4 / 10)))
      \<and> qs' ''YellowGamma'' = Some (smooth (Fin 1) gg (Fin (4 / 10)))"
    by (auto simp: main_defaults_def)
  with gg nan a one two show ?thesis by auto
qed


section \<open>Missing blocks\<close>

























text \<open>
  The composite step of the multiplicative variant has no guard: a file without rows in
  the curves block ends the run there.
\<close>

lemma process_without_curves_block:
  "process fit_fails dec_float [cal_de_only] = Inl KeyError"
  by (simp add: cal_de_only_def process_def process_file_def parse_defs update_composite_def)





section \<open>The gamma estimators on ill-conditioned input\<close>

lemma dot_replicate_one: "length zs = n \<Longrightarrow> dot (replicate n 1) zs = sum_list zs"
proof (induction zs arbitrary: n)
  case Nil
  then show ?case by (simp add: dot_def)
next
  case (Cons z zs)
  then obtain m where n: "n = Suc m" and m: "length zs = m" by (cases n) auto
  from Cons.IH [OF m] show ?case by (simp add: n dot_def)
qed

lemma sum_squares_pos:
  assumes "x \<noteq> []" and "\<forall>v \<in> set x. v \<noteq> (0::real)"
  shows "0 < sum_list (map (\<lambda>v. v * v) x)"
proof -
  from assms(1) obtain a rest where x: "x = a # rest" by (cases x) auto
  with assms(2) have "0 < a * a" by (auto simp: zero_less_mult_iff neq_iff)
  moreover have "0 \<le> sum_list (map (\<lambda>v. v * v) rest)"
    by (rule sum_list_nonneg) auto
  ultimately show ?thesis by (simp add: x)
qed

lemma fins_map_Fin: "fins (map Fin ys) = Some ys"
  by (induction ys) simp_all

lemma np_polyfit1_total:
  assumes ne: "x \<noteq> []" and len: "length y = length x" and nz: "\<forall>v \<in> set x. v \<noteq> 0"
  shows "\<exists>g. np_polyfit1 nf x (map Fin y) None = Inr (Fin g)"
proof -
  have S: "sum_list (replicate (length x) (1::real)) = real (length x)"
    by (simp add: sum_list_replicate)
  from ne have Sne: "real (length x) \<noteq> 0" by simp
  have "dot (replicate (length x) 1) (map (\<lambda>v. v * v) x) = sum_list (map (\<lambda>v. v * v) x)"
    by (rule dot_replicate_one) simp
  with sum_squares_pos [OF ne nz]
  have Sxx: "dot (replicate (length x) 1) (map (\<lambda>v. v * v) x) \<noteq> 0" by simp
  from ne len S Sne Sxx show ?thesis
    by (simp add: np_polyfit1_def Let_def fins_map_Fin)
qed

lemma np_polyfit1_empty: "np_polyfit1 nf [] y w = Inl TypeError"
  by (simp add: np_polyfit1_def)

lemma estimate_gamma_empty_mask:
  assumes len: "length O' = length I'"
    and none: "filter (\<lambda>v. 5 / 100 < v \<and> v < 95 / 100) I' = []"
  shows "estimate_gamma nf I' O' None = Inl TypeError"
    and "length ws = length I' \<Longrightarrow> estimate_gamma nf I' O' (Some ws) = Inl TypeError"
proof -
  let ?P = "\<lambda>v::real. v > 5 / 100 \<and> v < 95 / 100"
  have a: "bool_index I' (map ?P I') = Inr []"
    using bool_index_self [of I' ?P] none by simp
  have "length (filter (\<lambda>p. ?P (fst p)) (zip I' O')) = length (filter ?P I')"
    by (rule length_filter_zip [OF len])
  with none have "filter (\<lambda>p. ?P (fst p)) (zip I' O') = []" by simp
  with bool_index_other [OF len, of ?P] have b: "bool_index O' (map ?P I') = Inr []" by simp
  show "estimate_gamma nf I' O' None = Inl TypeError"
    unfolding estimate_gamma_def Let_def a b by (simp add: np_polyfit1_empty)
  assume lw: "length ws = length I'"
  have "length (filter (\<lambda>p. ?P (fst p)) (zip I' ws)) = length (filter ?P I')"
    by (rule length_filter_zip [OF lw])
  with none have "filter (\<lambda>p. ?P (fst p)) (zip I' ws) = []" by simp
  with bool_index_other [OF lw, of ?P] have c: "bool_index ws (map ?P I') = Inr []" by simp
  show "estimate_gamma nf I' O' (Some ws) = Inl TypeError"
    unfolding estimate_gamma_def Let_def a b using c by (simp add: np_polyfit1_empty)
qed

lemma estimate_gamma_returns:
  assumes len: "length O' = length I'"
    and some: "filter (\<lambda>v. 5 / 100 < v \<and> v < 95 / 100) I' \<noteq> []"
    and pos: "\<forall>p \<in> set (zip I' O'). 5 / 100 < fst p \<and> fst p < 95 / 100 \<longrightarrow> 0 < snd p + EPS"
  shows "\<exists>g. estimate_gamma nf I' (map Fin O') None = Inr (Fin g)"
proof -
  let ?P = "\<lambda>v::real. v > 5 / 100 \<and> v < 95 / 100"
  define I_m where "I_m = filter ?P I'"
  define O_m where "O_m = map snd (filter (\<lambda>p. ?P (fst p)) (zip I' O'))"
  have a: "bool_index I' (map ?P I') = Inr I_m"
    unfolding I_m_def by (rule bool_index_self)
  have "bool_index O' (map ?P I') = Inr O_m"
    unfolding O_m_def by (rule bool_index_other [OF len])
  then have b: "bool_index (map Fin O') (map ?P I') = Inr (map Fin O_m)"
    by (auto simp: bool_index_def zip_map1 filter_map comp_def case_prod_unfold
        split: if_splits)
  have l: "length O_m = length I_m"
    unfolding O_m_def I_m_def length_map by (rule length_filter_zip [OF len])
  from pos have fin: "\<forall>v \<in> set O_m. 0 < v + EPS"
    unfolding O_m_def by fastforce
  then have logs: "map (\<lambda>v. np_log (fshift EPS v)) (map Fin O_m)
      = map Fin (map (\<lambda>v. ln (v + EPS)) O_m)"
    by simp
  have nz: "\<forall>v \<in> set (map (\<lambda>v. ln (v + EPS)) I_m). v \<noteq> 0"
  proof
    fix v assume "v \<in> set (map (\<lambda>v. ln (v + EPS)) I_m)"
    then obtain u where u: "u \<in> set I_m" and v: "v = ln (u + EPS)" by auto
    from u have "5 / 100 < u" "u < 95 / 100" unfolding I_m_def by auto
    then have "0 < u + EPS" "u + EPS < 1" by (simp_all add: EPS_def)
    then have "ln (u + EPS) < 0" by simp
    with v show "v \<noteq> 0" by simp
  qed
  from some have ne: "map (\<lambda>v. ln (v + EPS)) I_m \<noteq> []" unfolding I_m_def by simp
  from l have ll: "length (map (\<lambda>v. ln (v + EPS)) O_m) = length (map (\<lambda>v. ln (v + EPS)) I_m)"
    by simp
  have "estimate_gamma nf I' (map Fin O') None
      = np_polyfit1 nf (map (\<lambda>v. ln (v + EPS)) I_m) (map Fin (map (\<lambda>v. ln (v + EPS)) O_m)) None"
    by (simp only: estimate_gamma_def Let_def a b sum.case option.case logs)
  with np_polyfit1_total [OF ne ll nz] show ?thesis
    by simp
qed

text \<open>
  Claim C2, as amended.  \<open>fit_gamma\<close> of the multiplicative variant returns a scalar for
  every pair of sample arrays and never raises: the neutral 1.0 when \<open>curve_fit\<close> fails,
  the fitted exponent otherwise.  \<open>estimate_gamma\<close> of the smoothing variant has no such
  fallback: for aligned arrays without a sample strictly between 0.05 and 0.95 it raises
  the \<open>TypeError\<close> of \<open>polyfit\<close>, with or without weights; with at least one such sample,
  and the outputs of these samples above \<open>-EPS\<close>, the unweighted estimator returns a
  finite scalar.
\<close>

theorem gamma_estimators_failure_policy:
  "(cf (map (\<lambda>v. v + 1 / 1000000) x) (map (\<lambda>v. v + 1 / 1000000) y) = None
      \<longrightarrow> fit_gamma cf x y = 1)
   \<and> (cf (map (\<lambda>v. v + 1 / 1000000) x) (map (\<lambda>v. v + 1 / 1000000) y) = Some g
      \<longrightarrow> fit_gamma cf x y = g)
   \<and> (length O' = length I' \<and> filter (\<lambda>v. 5 / 100 < v \<and> v < 95 / 100) I' = []
      \<longrightarrow> estimate_gamma nf I' (map Fin O') None = Inl TypeError
          \<and> (\<forall>ws. length ws = length I'
                \<longrightarrow> estimate_gamma nf I' (map Fin O') (Some ws) = Inl TypeError))
   \<and> (length O' = length I' \<and> filter (\<lambda>v. 5 / 100 < v \<and> v < 95 / 100) I' \<noteq> []
        \<and> (\<forall>p \<in> set (zip I' O').
              5 / 100 < fst p \<and> fst p < 95 / 100 \<longrightarrow> 0 < snd p + EPS)
      \<longrightarrow> (\<exists>g'. estimate_gamma nf I' (map Fin O') None = Inr (Fin g')))"
  using estimate_gamma_empty_mask [where O' = "map Fin O'" and I' = I' and nf = nf]
    estimate_gamma_returns [where O' = O' and I' = I' and nf = nf]
  by (simp add: fit_gamma_def)

theorem gamma_estimators_failure_policy_witness:
  "fit_gamma fit_fails [1 / 2] [1 / 4] = 1
   \<and> fit_gamma fit_two [1 / 2] [1 / 4] = 2
   \<and> estimate_gamma nf_raises [0, 1] [Fin 0, Fin 1] None = Inl TypeError
   \<and> estimate_gamma nf_raises [0, 1] [Fin 0, Fin 1] (Some [Fin 1, Fin 1]) = Inl TypeError
   \<and> (\<exists>g'. estimate_gamma nf_raises [1 / 4, 1 / 2] [Fin (1 / 4), Fin (1 / 2)] None
             = Inr (Fin g'))"
proof -
  note a = gamma_estimators_failure_policy [where cf = fit_fails and x = "[1 / 2]"
      and y = "[1 / 4]" and I' = "[0, 1]" and O' = "[0, 1]" and nf = nf_raises]
  note b = gamma_estimators_failure_policy [where cf = fit_two and x = "[1 / 2]"
      and y = "[1 / 4]" and g = 2 and I' = "[1 / 4, 1 / 2]" and O' = "[1 / 4, 1 / 2]"
      and nf = nf_raises]
  from a have "fit_gamma fit_fails [1 / 2] [1 / 4] = 1
      \<and> estimate_gamma nf_raises [0, 1] [Fin 0, Fin 1] None = Inl TypeError
      \<and> estimate_gamma nf_raises [0, 1] [Fin 0, Fin 1] (Some [Fin 1, Fin 1]) = Inl TypeError"
    by (simp add: fit_fails_def)
  moreover from b have "fit_gamma fit_two [1 / 2] [1 / 4] = 2
      \<and> (\<exists>g'. estimate_gamma nf_raises [1 / 4, 1 / 2] [Fin (1 / 4), Fin (1 / 2)] None
               = Inr (Fin g'))"
    by (simp add: fit_two_def EPS_def)
  ultimately show ?thesis by blast
qed

text \<open>
  Claim C2 as stated fails for \<open>estimate_gamma\<close>: on the aligned arrays \<open>I = O = [0, 1]\<close>
  no sample remains after masking, and the estimator raises instead of returning 1.0.
\<close>

theorem estimate_gamma_raises_counterexample:
  "\<not> (5 / 100 < (0 :: real) \<and> (0 :: real) < 95 / 100)
   \<and> \<not> (5 / 100 < (1 :: real) \<and> (1 :: real) < 95 / 100)
   \<and> estimate_gamma nf_raises [0, 1] [Fin 0, Fin 1] None = Inl TypeError
   \<and> estimate_gamma nf_raises [0, 1] [Fin 0, Fin 1] None \<noteq> Inr (Fin 1)"
  by (simp add: estimate_gamma_def bool_index_def np_polyfit1_def)

section \<open>The transition point\<close>

subsection \<open>Gradient and argmax on lists\<close>

lemma np_gradient_map:
  assumes "2 \<le> n"
  shows "np_gradient (map u [0..<n]) = Inr (map (grad u n) [0..<n])"
proof -
  have "map (\<lambda>i. if i = 0 then map u [0..<n] ! 1 - map u [0..<n] ! 0
                  else if i = n - 1 then map u [0..<n] ! (n - 1) - map u [0..<n] ! (n - 2)
                  else (map u [0..<n] ! (i + 1) - map u [0..<n] ! (i - 1)) / 2) [0..<n]
        = map (grad u n) [0..<n]"
  proof (rule map_cong [OF refl])
    fix i assume "i \<in> set [0..<n]"
    then have i: "i < n" by simp
    with assms show "(if i = 0 then map u [0..<n] ! 1 - map u [0..<n] ! 0
                  else if i = n - 1 then map u [0..<n] ! (n - 1) - map u [0..<n] ! (n - 2)
                  else (map u [0..<n] ! (i + 1) - map u [0..<n] ! (i - 1)) / 2) = grad u n i"
      by (auto simp: grad_def)
  qed
  with assms show ?thesis by (simp add: np_gradient_def Let_def)
qed

lemma argmax_from_spec:
  assumes "bi < length ys" and "best = ys ! bi"
    and "\<forall>m < length ys. ys ! m \<le> best" and "\<forall>m < bi. ys ! m < best"
    and "i = length ys"
  shows "argmax_from xs i best bi < length (ys @ xs)
       \<and> (\<forall>m < length (ys @ xs). (ys @ xs) ! m \<le> (ys @ xs) ! argmax_from xs i best bi)
       \<and> (\<forall>m < argmax_from xs i best bi. (ys @ xs) ! m < (ys @ xs) ! argmax_from xs i best bi)"
  using assms
proof (induction xs arbitrary: ys i best bi)
  case Nil
  then show ?case by simp
next
  case (Cons x xs)
  show ?case
  proof (cases "x > best")
    case True
    have "argmax_from xs (Suc i) x i < length ((ys @ [x]) @ xs)
       \<and> (\<forall>m < length ((ys @ [x]) @ xs).
             ((ys @ [x]) @ xs) ! m \<le> ((ys @ [x]) @ xs) ! argmax_from xs (Suc i) x i)
       \<and> (\<forall>m < argmax_from xs (Suc i) x i.
             ((ys @ [x]) @ xs) ! m < ((ys @ [x]) @ xs) ! argmax_from xs (Suc i) x i)"
    proof (rule Cons.IH)
      show "i < length (ys @ [x])" using Cons.prems(5) by simp
      show "x = (ys @ [x]) ! i" using Cons.prems(5) by simp
      show "\<forall>m < length (ys @ [x]). (ys @ [x]) ! m \<le> x"
        using Cons.prems(3) True by (auto simp: nth_append less_Suc_eq)
      show "\<forall>m < i. (ys @ [x]) ! m < x"
        using Cons.prems(3,5) True by (auto simp: nth_append)
      show "Suc i = length (ys @ [x])" using Cons.prems(5) by simp
    qed
    with True show ?thesis by simp
  next
    case False
    have "argmax_from xs (Suc i) best bi < length ((ys @ [x]) @ xs)
       \<and> (\<forall>m < length ((ys @ [x]) @ xs).
             ((ys @ [x]) @ xs) ! m \<le> ((ys @ [x]) @ xs) ! argmax_from xs (Suc i) best bi)
       \<and> (\<forall>m < argmax_from xs (Suc i) best bi.
             ((ys @ [x]) @ xs) ! m < ((ys @ [x]) @ xs) ! argmax_from xs (Suc i) best bi)"
    proof (rule Cons.IH)
      show "bi < length (ys @ [x])" using Cons.prems(1) by simp
      show "best = (ys @ [x]) ! bi" using Cons.prems(1,2) by (simp add: nth_append)
      show "\<forall>m < length (ys @ [x]). (ys @ [x]) ! m \<le> best"
        using Cons.prems(3) False by (auto simp: nth_append less_Suc_eq)
      show "\<forall>m < bi. (ys @ [x]) ! m < best"
        using Cons.prems(1,4) by (auto simp: nth_append)
      show "Suc i = length (ys @ [x])" using Cons.prems(5) by simp
    qed
    with False show ?thesis by simp
  qed
qed

lemma np_argmax_spec:
  assumes "xs \<noteq> []"
  shows "\<exists>j. np_argmax xs = Inr j \<and> j < length xs
           \<and> (\<forall>m < length xs. xs ! m \<le> xs ! j) \<and> (\<forall>m < j. xs ! m < xs ! j)"
proof -
  from assms obtain x rest where xs: "xs = x # rest" by (cases xs) auto
  have "argmax_from rest 1 x 0 < length ([x] @ rest)
       \<and> (\<forall>m < length ([x] @ rest). ([x] @ rest) ! m \<le> ([x] @ rest) ! argmax_from rest 1 x 0)
       \<and> (\<forall>m < argmax_from rest 1 x 0. ([x] @ rest) ! m < ([x] @ rest) ! argmax_from rest 1 x 0)"
    by (rule argmax_from_spec) simp_all
  then show ?thesis by (simp add: xs np_argmax_def)
qed

lemma estimate_transition_map:
  assumes n: "2 \<le> n"
  shows "\<exists>j. estimate_transition (map x [0..<n]) (map u [0..<n]) = Inr (x j) \<and> j < n
           \<and> (\<forall>m < n. grad (grad u n) n m \<le> grad (grad u n) n j)
           \<and> (\<forall>m < j. grad (grad u n) n m < grad (grad u n) n j)"
proof -
  let ?d2 = "map (grad (grad u n) n) [0..<n]"
  from n have "?d2 \<noteq> []" by simp
  from np_argmax_spec [OF this] obtain j where
    j: "np_argmax ?d2 = Inr j" "j < n" "\<forall>m < n. ?d2 ! m \<le> ?d2 ! j" "\<forall>m < j. ?d2 ! m < ?d2 ! j"
    by auto
  from j(2,3) have a: "\<forall>m < n. grad (grad u n) n m \<le> grad (grad u n) n j" by simp
  from j(2,4) have b: "\<forall>m < j. grad (grad u n) n m < grad (grad u n) n j" by simp
  from j(1,2) n have "estimate_transition (map x [0..<n]) (map u [0..<n]) = Inr (x j)"
    by (simp add: estimate_transition_def np_gradient_map item_def)
  with j(2) a b show ?thesis by blast
qed


lemma grad_cong: "\<forall>i < n. u i = v i \<Longrightarrow> 2 \<le> n \<Longrightarrow> i < n \<Longrightarrow> grad u n i = grad v n i"
  by (auto simp: grad_def)

lemma grad_affine_plus:
  assumes "2 \<le> n" and "i < n"
  shows "grad (\<lambda>i. A + B * real i + k * r i) n i = B + k * grad r n i"
proof -
  from assms have "real (n - 1) = real (n - 2) + 1" by (simp add: of_nat_diff)
  moreover from assms have "i \<noteq> 0 \<Longrightarrow> real (i - 1) = real i - 1" by (simp add: of_nat_diff)
  ultimately show ?thesis
    by (simp add: grad_def algebra_simps diff_divide_distrib add_divide_distrib)
qed

lemma grad_const_plus: "grad (\<lambda>i. B + k * r i) n i = k * grad r n i"
  by (simp add: grad_def algebra_simps diff_divide_distrib)

lemma second_grad_affine_plus:
  assumes n: "2 \<le> n" and i: "i < n"
  shows "grad (grad (\<lambda>i. A + B * real i + k * r i) n) n i = k * grad (grad r n) n i"
proof -
  have "grad (grad (\<lambda>i. A + B * real i + k * r i) n) n i
          = grad (\<lambda>i. B + k * grad r n i) n i"
    by (rule grad_cong) (use n i in \<open>simp_all add: grad_affine_plus\<close>)
  then show ?thesis by (simp add: grad_const_plus)
qed

text \<open>The second gradient, index by index, for at least four samples.\<close>

lemma d2_first: "grad (grad u (N + 4)) (N + 4) 0 = (u 2 - 2 * u 1 + u 0) / 2"
  by (simp add: grad_def field_simps eval_nat_numeral)

lemma d2_second: "grad (grad u (N + 4)) (N + 4) 1 = (u 3 - 3 * u 1 + 2 * u 0) / 4"
  by (simp add: grad_def field_simps eval_nat_numeral)

lemma d2_inner:
  "m + 1 \<le> N \<Longrightarrow>
     grad (grad u (N + 4)) (N + 4) (m + 2) = (u (m + 4) - 2 * u (m + 2) + u m) / 4"
  by (simp add: grad_def field_simps eval_nat_numeral)

lemma d2_before_last:
  "grad (grad u (N + 4)) (N + 4) (N + 2) = (2 * u (N + 3) - 3 * u (N + 2) + u N) / 4"
  by (simp add: grad_def field_simps eval_nat_numeral)

lemma d2_last:
  "grad (grad u (N + 4)) (N + 4) (N + 3) = (u (N + 3) - 2 * u (N + 2) + u (N + 1)) / 2"
  by (simp add: grad_def field_simps eval_nat_numeral)

subsection \<open>The second gradient of a ramp peaks at its start\<close>

lemmas d2_ramp = d2_first d2_second d2_inner d2_before_last d2_last ramp_def

lemma index_cases:
  fixes j N :: nat
  assumes "j < N + 4"
  obtains "j = 0" | "j = 1" | m where "j = m + 2" "m + 1 \<le> N" | "j = N + 2" | "j = N + 3"
proof (cases "2 \<le> j \<and> j \<le> N + 1")
  case True
  then have "j = (j - 2) + 2" "(j - 2) + 1 \<le> N" by arith+
  then show thesis by (rule that(3))
next
  case False
  with assms have "j = 0 \<or> j = 1 \<or> j = N + 2 \<or> j = N + 3" by arith
  then show thesis using that(1,2,4,5) by blast
qed

lemma ramp_peak_right:
  fixes N j :: nat
  assumes t0: "0 \<le> \<tau>" and far: "\<tau> + 1 < real j" and j: "j < N + 4"
  shows "\<exists>i < j. grad (grad (ramp \<tau>) (N + 4)) (N + 4) j
                  \<le> grad (grad (ramp \<tau>) (N + 4)) (N + 4) i"
  using j
proof (cases rule: index_cases)
  case 1
  with t0 far show ?thesis by simp
next
  case 2
  with t0 far show ?thesis by simp
next
  case (3 m)
  show ?thesis
  proof (cases m)
    case 0
    have "grad (grad (ramp \<tau>) (N + 4)) (N + 4) (0 + 2)
            \<le> grad (grad (ramp \<tau>) (N + 4)) (N + 4) 1"
      unfolding d2_second d2_inner [OF 3(2) [unfolded 0]] ramp_def
      using t0 far 3(1) 0 by (simp add: max_def)
    with 3(1) 0 show ?thesis by (intro exI [of _ 1]) simp
  next
    case (Suc m')
    from 3(2) Suc have a: "m' + 1 \<le> N" and b: "(m' + 1) + 1 \<le> N" by simp_all
    have "grad (grad (ramp \<tau>) (N + 4)) (N + 4) ((m' + 1) + 2)
            \<le> grad (grad (ramp \<tau>) (N + 4)) (N + 4) (m' + 2)"
      unfolding d2_inner [OF a] d2_inner [OF b] ramp_def
      using t0 far 3(1) Suc by (simp add: max_def)
    with 3(1) Suc show ?thesis by (intro exI [of _ "m' + 2"]) simp
  qed
next
  case 4
  show ?thesis
  proof (cases N)
    case 0
    have "grad (grad (ramp \<tau>) (0 + 4)) (0 + 4) (0 + 2)
            \<le> grad (grad (ramp \<tau>) (0 + 4)) (0 + 4) 1"
      unfolding d2_second d2_before_last ramp_def
      using t0 far 4 0 by (simp add: max_def)
    with 4 0 show ?thesis by (intro exI [of _ 1]) simp
  next
    case (Suc N')
    have a: "N' + 1 \<le> N' + 1" by simp
    have "grad (grad (ramp \<tau>) ((N' + 1) + 4)) ((N' + 1) + 4) ((N' + 1) + 2)
            \<le> grad (grad (ramp \<tau>) ((N' + 1) + 4)) ((N' + 1) + 4) (N' + 2)"
      unfolding d2_inner [OF a] d2_before_last ramp_def
      using t0 far 4 Suc by (simp add: max_def)
    with 4 Suc show ?thesis by (intro exI [of _ "N' + 2"]) simp
  qed
next
  case 5
  have "grad (grad (ramp \<tau>) (N + 4)) (N + 4) (N + 3)
          \<le> grad (grad (ramp \<tau>) (N + 4)) (N + 4) (N + 2)"
    unfolding d2_last d2_before_last ramp_def
    using t0 far 5 by (simp add: max_def)
  with 5 show ?thesis by (intro exI [of _ "N + 2"]) simp
qed


lemma ramp_peak_left:
  fixes N j :: nat
  assumes far: "real j + 1 < \<tau>" and t1: "\<tau> < real (N + 3)"
  shows "\<exists>i < N + 4. grad (grad (ramp \<tau>) (N + 4)) (N + 4) j
                  < grad (grad (ramp \<tau>) (N + 4)) (N + 4) i"
proof -
  define k where "k = nat \<lfloor>\<tau>\<rfloor>"
  from far have tpos: "0 \<le> \<tau>" by linarith
  then have kl: "real k \<le> \<tau>" and ku: "\<tau> < real k + 1"
    unfolding k_def by linarith+
  from far ku have jk: "j + 1 \<le> k" by linarith
  from kl t1 have kN: "k \<le> N + 2" by simp
  then have "k < N + 4" by simp
  then have "grad (grad (ramp \<tau>) (N + 4)) (N + 4) j
                  < grad (grad (ramp \<tau>) (N + 4)) (N + 4) k"
  proof (cases rule: index_cases)
    case 1
    with jk show ?thesis by simp
  next
    case 2
    with jk have j0: "j = 0" by simp
    show ?thesis
      unfolding 2 j0 d2_first d2_second ramp_def
      using far kl ku 2 j0 by (simp add: max_def)
  next
    case (3 mk)
    from jk kN have "j < N + 4" by simp
    then show ?thesis
    proof (cases rule: index_cases)
      case 1
      show ?thesis
        unfolding 1 3(1) d2_first d2_inner [OF 3(2)] ramp_def
        using far kl ku 3(1) by (simp add: max_def)
    next
      case 2
      show ?thesis
        unfolding 2 3(1) d2_second d2_inner [OF 3(2)] ramp_def
        using far kl ku 3(1) by (simp add: max_def)
    next
      case (3 m)
      note k3 = \<open>k = mk + 2\<close> \<open>mk + 1 \<le> N\<close>
      show ?thesis
        unfolding 3(1) k3(1) d2_inner [OF 3(2)] d2_inner [OF k3(2)] ramp_def
        using far kl ku 3(1) k3(1) jk by (simp add: max_def)
    next
      case 4
      with jk kN show ?thesis by simp
    next
      case 5
      with jk kN show ?thesis by simp
    qed
  next
    case 4
    from jk kN have "j < N + 4" by simp
    then show ?thesis
    proof (cases rule: index_cases)
      case 1
      show ?thesis
        unfolding 1 \<open>k = N + 2\<close> d2_first d2_before_last ramp_def
        using far kl ku \<open>k = N + 2\<close> by (simp add: max_def)
    next
      case 2
      show ?thesis
        unfolding 2 \<open>k = N + 2\<close> d2_second d2_before_last ramp_def
        using far kl ku \<open>k = N + 2\<close> by (simp add: max_def)
    next
      case (3 m)
      show ?thesis
        unfolding 3(1) \<open>k = N + 2\<close> d2_inner [OF 3(2)] d2_before_last ramp_def
        using far kl ku \<open>k = N + 2\<close> 3 by (simp add: max_def; linarith)
    next
      case 4
      with jk \<open>k = N + 2\<close> show ?thesis by simp
    next
      case 5
      with jk kN show ?thesis by simp
    qed
  next
    case 5
    with kN show ?thesis by simp
  qed
  with \<open>k < N + 4\<close> show ?thesis by blast
qed

subsection \<open>Knees\<close>

lemma knee_as_ramp:
  assumes h: "0 < h"
  shows "knee_curve t c s1 s2 (x0 + real i * h)
           = (c + s1 * (x0 - t)) + (s1 * h) * real i + ((s2 - s1) * h) * ramp ((t - x0) / h) i"
proof -
  define \<tau> where "\<tau> = (t - x0) / h"
  from h have ht: "h * \<tau> = t - x0" by (simp add: \<tau>_def)
  have cmp: "x0 + real i * h \<le> t \<longleftrightarrow> real i \<le> \<tau>"
  proof -
    have "x0 + real i * h \<le> t \<longleftrightarrow> h * real i \<le> h * \<tau>"
      unfolding ht by (simp add: mult.commute) linarith
    also from h have "\<dots> \<longleftrightarrow> real i \<le> \<tau>" by simp
    finally show ?thesis .
  qed
  show ?thesis
  proof (cases "x0 + real i * h \<le> t")
    case True
    with cmp have "ramp \<tau> i = 0" by (simp add: ramp_def)
    with True show ?thesis
      unfolding \<tau>_def [symmetric] by (simp add: knee_curve_def algebra_simps)
  next
    case False
    with cmp have "ramp \<tau> i = real i - \<tau>" by (simp add: ramp_def)
    then have "h * ramp \<tau> i = h * real i - h * \<tau>" by (simp only: right_diff_distrib)
    then have d: "h * ramp \<tau> i = real i * h - (t - x0)"
      unfolding ht by (simp only: mult.commute [of h "real i"])
    have "((s2 - s1) * h) * ramp \<tau> i = (s2 - s1) * (h * ramp \<tau> i)" by simp
    then have "((s2 - s1) * h) * ramp \<tau> i = (s2 - s1) * (real i * h - (t - x0))"
      by (simp only: d)
    with False show ?thesis
      unfolding \<tau>_def [symmetric] by (simp add: knee_curve_def algebra_simps)
  qed
qed

text \<open>
  Claim C7, as amended.  For every piecewise-linear curve sampled at four or more
  uniformly spaced input levels, with a single knee at an input level \<open>t\<close> inside the
  sampled range (from the first level up to, but not including, the last) at which the
  slope increases, \<open>estimate_transition\<close> returns a value within one sample spacing of
  \<open>t\<close>.
\<close>

theorem transition_within_one_spacing:
  assumes n: "4 \<le> n" and h: "0 < h" and s: "s1 < s2"
    and lo: "x0 \<le> t" and hi: "t < x0 + real (n - 1) * h"
  shows "\<exists>v. estimate_transition (levels x0 h n) (map (knee_curve t c s1 s2) (levels x0 h n))
               = Inr v \<and> \<bar>v - t\<bar> \<le> h"
proof -
  from n obtain N where N: "n = N + 4" by (metis add.commute le_Suc_ex)
  define \<tau> where "\<tau> = (t - x0) / h"
  define \<kappa> where "\<kappa> = (s2 - s1) * h"
  let ?u = "\<lambda>i. knee_curve t c s1 s2 (x0 + real i * h)"
  let ?F = "grad (grad (ramp \<tau>) n) n"
  from h s have kpos: "0 < \<kappa>" by (simp add: \<kappa>_def)
  from lo h have t0: "0 \<le> \<tau>" by (simp add: \<tau>_def)
  from hi h N have t1: "\<tau> < real (N + 3)"
    by (simp add: \<tau>_def pos_divide_less_eq algebra_simps)
  have u: "?u = (\<lambda>i. (c + s1 * (x0 - t)) + (s1 * h) * real i + \<kappa> * ramp \<tau> i)"
    unfolding \<tau>_def \<kappa>_def by (rule ext) (rule knee_as_ramp [OF h])
  have d2: "grad (grad ?u n) n m = \<kappa> * ?F m" if "m < n" for m
    unfolding u using n that by (intro second_grad_affine_plus) simp_all
  have lists: "map (knee_curve t c s1 s2) (levels x0 h n) = map ?u [0..<n]"
    by (simp add: levels_def)
  from n have "2 \<le> n" by simp
  from estimate_transition_map [OF this, of "\<lambda>i. x0 + real i * h" ?u] obtain j where
    res: "estimate_transition (levels x0 h n) (map ?u [0..<n]) = Inr (x0 + real j * h)"
    and j: "j < n"
    and mx: "\<forall>m < n. grad (grad ?u n) n m \<le> grad (grad ?u n) n j"
    and fst: "\<forall>m < j. grad (grad ?u n) n m < grad (grad ?u n) n j"
    unfolding levels_def by blast
  have mx': "?F m \<le> ?F j" if "m < n" for m
  proof -
    from mx that have "grad (grad ?u n) n m \<le> grad (grad ?u n) n j" by blast
    then have "\<kappa> * ?F m \<le> \<kappa> * ?F j" unfolding d2 [OF that] d2 [OF j] .
    with kpos show ?thesis by simp
  qed
  have fst': "?F m < ?F j" if "m < j" for m
  proof -
    from that j have mn: "m < n" by simp
    from fst that have "grad (grad ?u n) n m < grad (grad ?u n) n j" by blast
    then have "\<kappa> * ?F m < \<kappa> * ?F j" unfolding d2 [OF mn] d2 [OF j] .
    with kpos show ?thesis by simp
  qed
  have near: "\<bar>real j - \<tau>\<bar> \<le> 1"
  proof (rule ccontr)
    assume "\<not> \<bar>real j - \<tau>\<bar> \<le> 1"
    then consider "\<tau> + 1 < real j" | "real j + 1 < \<tau>" by linarith
    then show False
    proof cases
      case 1
      from ramp_peak_right [OF t0 1, of N] j N obtain i where "i < j" "?F j \<le> ?F i"
        by auto
      with fst' [of i] show False by simp
    next
      case 2
      from ramp_peak_left [OF 2 t1] N obtain i where "i < n" "?F j < ?F i"
        by auto
      with mx' [of i] show False by simp
    qed
  qed
  from h have "h * \<tau> = t - x0" by (simp add: \<tau>_def)
  then have "x0 + real j * h - t = h * (real j - \<tau>)"
    by (simp add: right_diff_distrib mult.commute)
  then have "\<bar>x0 + real j * h - t\<bar> = h * \<bar>real j - \<tau>\<bar>"
    using h by (simp add: abs_mult)
  also from near h have "\<dots> \<le> h * 1" by (intro mult_left_mono) simp_all
  finally have "\<bar>x0 + real j * h - t\<bar> \<le> h" by simp
  with res lists show ?thesis by auto
qed

theorem transition_within_one_spacing_witness:
  "(4::nat) \<le> 5 \<and> (0::real) < 1 / 4 \<and> (0::real) < 1 \<and> (0::real) \<le> 1 / 2
   \<and> (1 / 2 :: real) < 0 + real (5 - 1) * (1 / 4)
   \<and> levels 0 (1 / 4) 5 = [0, 1 / 4, 1 / 2, 3 / 4, 1]
   \<and> map (knee_curve (1 / 2) (1 / 2) 0 1) (levels 0 (1 / 4) 5) = [1 / 2, 1 / 2, 1 / 2, 3 / 4, 1]
   \<and> (\<exists>v. estimate_transition (levels 0 (1 / 4) 5)
              (map (knee_curve (1 / 2) (1 / 2) 0 1) (levels 0 (1 / 4) 5)) = Inr v
          \<and> \<bar>v - 1 / 2\<bar> \<le> 1 / 4)"
proof -
  have l: "levels 0 (1 / 4) 5 = [0, 1 / 4, 1 / 2, 3 / 4, 1]"
    by (simp add: levels_def upt_rec)
  have m: "map (knee_curve (1 / 2) (1 / 2) 0 1) (levels 0 (1 / 4) 5) = [1 / 2, 1 / 2, 1 / 2, 3 / 4, 1]"
    unfolding l by (simp add: knee_curve_def)
  from transition_within_one_spacing [of 5 "1 / 4" 0 1 0 "1 / 2" "1 / 2"] l m
  show ?thesis by simp
qed

text \<open>
  Claim C7 as stated fails where the slope decreases at the knee: the greatest second
  difference is then the 0 of the straight parts, first met at index 0.  With slopes 1
  and 0 around \<open>t = 1/2\<close> on five levels of spacing 1/4 the result is 0.  It also fails on
  three samples, where the three second differences are equal: with slopes 0 and 1 around
  \<open>t = 3/2\<close> on the levels 0, 1, 2 the result is 0.
\<close>

theorem transition_concave_knee_counterexample:
  "levels 0 (1 / 4) 5 = [0, 1 / 4, 1 / 2, 3 / 4, 1]
   \<and> map (knee_curve (1 / 2) (1 / 2) 1 0) (levels 0 (1 / 4) 5) = [0, 1 / 4, 1 / 2, 1 / 2, 1 / 2]
   \<and> estimate_transition [0, 1 / 4, 1 / 2, 3 / 4, 1] [0, 1 / 4, 1 / 2, 1 / 2, 1 / 2] = Inr 0
   \<and> \<not> \<bar>0 - 1 / 2\<bar> \<le> (1 / 4 :: real)
   \<and> levels 0 1 3 = [0, 1, 2]
   \<and> map (knee_curve (3 / 2) 0 0 1) (levels 0 1 3) = [0, 0, 1 / 2]
   \<and> estimate_transition [0, 1, 2] [0, 0, 1 / 2] = Inr 0
   \<and> \<not> \<bar>0 - 3 / 2\<bar> \<le> (1 :: real)"
  by (simp add: levels_def upt_rec knee_curve_def estimate_transition_def np_gradient_def
        np_argmax_def item_def)

end
